(* ===== verification/Go_Prelude.thy ===== *)
theory Go_Prelude
  imports Main "HOL-Library.Word" "HOL-Library.Finite_Map" "HOL-Library.Multiset"
begin

text \<open>
  The prelude of the development: the functions of Go's \<open>strings\<close> package that the
  repository uses (\<open>Split\<close>, \<open>SplitSeq\<close>, \<open>Cut\<close>, \<open>Join\<close>,
  \<open>TrimSpace\<close>), on Go strings as byte sequences (an Isabelle \<^typ>\<open>string\<close> is a list of
  8-bit characters, so a non-ASCII rune is its UTF-8 bytes), and the generic facts about lists,
  finite maps and these functions that the component theories share.
\<close>

named_theorems go_defs \<open>definitions unfolded when a closed instance is evaluated\<close>

type_synonym byte = "8 word"

section \<open>Splitting and joining\<close>

text \<open>\<open>strings.Split(s, sep)\<close> and \<open>strings.SplitSeq(s, sep)\<close> for a one-byte separator.\<close>

fun split_on :: "char \<Rightarrow> string \<Rightarrow> string list" where
  "split_on c [] = [[]]"
| "split_on c (x # xs) =
     (if x = c then [] # split_on c xs
      else (case split_on c xs of [] \<Rightarrow> [[x]] | y # ys \<Rightarrow> (x # y) # ys))"

text \<open>\<open>strings.Join(parts, sep)\<close>.\<close>

fun join_with :: "string \<Rightarrow> string list \<Rightarrow> string" where
  "join_with sep [] = []"
| "join_with sep [x] = x"
| "join_with sep (x # y # ys) = x @ sep @ join_with sep (y # ys)"

text \<open>\<open>strings.Cut(s, sep)\<close> for a one-byte separator: before, after, found.\<close>

definition cut_at :: "char \<Rightarrow> string \<Rightarrow> string \<times> string \<times> bool" where
  "cut_at c s =
     (if c \<in> set s then (takeWhile (\<lambda>x. x \<noteq> c) s, tl (dropWhile (\<lambda>x. x \<noteq> c) s), True)
      else (s, [], False))"

lemma split_on_not_Nil [simp]: "split_on c s \<noteq> []"
  by (induction s) (auto split: list.splits)

lemma split_on_subset: "q \<in> set (split_on c s) \<Longrightarrow> set q \<subseteq> set s"
proof (induction s arbitrary: q)
  case Nil
  then show ?case by simp
next
  case (Cons x s)
  obtain y ys where y: "split_on c s = y # ys"
    using split_on_not_Nil by (cases "split_on c s") auto
  with Cons.IH have "set y \<subseteq> set s" and "\<And>z. z \<in> set ys \<Longrightarrow> set z \<subseteq> set s" by auto
  with Cons.prems y show ?case by (auto split: if_splits)
qed

lemma split_on_plain: "c \<notin> set s \<Longrightarrow> split_on c s = [s]"
  by (induction s) auto

lemma split_on_append:
  "c \<notin> set s \<Longrightarrow> split_on c (s @ c # t) = s # split_on c t"
  by (induction s) auto

lemma join_Cons: "xs \<noteq> [] \<Longrightarrow> join_with sep (x # xs) = x @ sep @ join_with sep xs"
  by (cases xs) auto

lemma split_on_join:
  "xs \<noteq> [] \<Longrightarrow> \<forall>x\<in>set xs. c \<notin> set x \<Longrightarrow> split_on c (join_with [c] xs) = xs"
proof (induction xs)
  case Nil
  then show ?case by simp
next
  case (Cons x xs)
  then show ?case
    by (cases "xs = []") (simp_all add: split_on_plain join_Cons split_on_append)
qed

lemma join_split_on: "join_with [c] (split_on c s) = s"
proof (induction s)
  case Nil
  then show ?case by simp
next
  case (Cons x s)
  then show ?case
    by (cases "split_on c s" rule: list.exhaust[case_names Nil Cons])
      (auto simp: join_Cons split: list.splits,
       metis append_Cons join_Cons join_with.simps(2))
qed

lemma split_on_no_sep: "p \<in> set (split_on c s) \<Longrightarrow> c \<notin> set p"
  by (induction s arbitrary: p) (auto split: if_splits list.splits)

lemma join_with_snoc: "xs \<noteq> [] \<Longrightarrow> join_with sep (xs @ [x]) = join_with sep xs @ sep @ x"
proof (induction xs)
  case Nil
  then show ?case by simp
next
  case (Cons a xs)
  then show ?case by (cases "xs = []") (simp_all add: join_Cons)
qed

lemma cut_at_fst_no_sep: "c \<notin> set (fst (cut_at c s))"
  by (auto simp: cut_at_def dest: set_takeWhileD)

lemma cut_at_append: "c \<notin> set a \<Longrightarrow> cut_at c (a @ c # b) = (a, b, True)"
  by (simp add: cut_at_def takeWhile_tail dropWhile_append)

lemma last_component_eq:
  assumes "c \<notin> set x" and "c \<notin> set y" and "a @ c # x = b @ c # y"
  shows "x = y"
proof -
  have cutr: "takeWhile (\<lambda>u. u \<noteq> c) (rev (d @ c # z)) = rev z" if "c \<notin> set z" for d z
    using that by (auto simp: takeWhile_append)
  have "rev x = rev y"
    using cutr[OF assms(1), of a] cutr[OF assms(2), of b] assms(3) by metis
  then show ?thesis by simp
qed

lemma list_all2_last:
  "list_all2 P xs ys \<Longrightarrow> xs \<noteq> [] \<Longrightarrow> ys \<noteq> [] \<and> P (last xs) (last ys)"
proof -
  assume *: "list_all2 P xs ys" "xs \<noteq> []"
  then have "length xs = length ys" and "ys \<noteq> []" by (auto dest: list_all2_lengthD)
  with * show ?thesis by (simp add: list_all2_conv_all_nth last_conv_nth)
qed

section \<open>Trimming white space\<close>

text \<open>
  \<open>strings.TrimSpace\<close> removes the leading and trailing runes for which \<open>unicode.IsSpace\<close>
  holds. \<open>space_runes\<close> lists them as UTF-8 bytes: the six ASCII ones, U+0085, U+00A0, U+1680,
  U+2000 to U+200A, U+2028, U+2029, U+202F, U+205F and U+3000.
\<close>

definition space_runes :: "string list" where
  "space_runes =
     map (\<lambda>n. [char_of (n :: nat)]) [9, 10, 11, 12, 13, 32] @
     map (map (char_of :: nat \<Rightarrow> char))
       ([[0xC2, 0x85], [0xC2, 0xA0], [0xE1, 0x9A, 0x80]] @
        map (\<lambda>n. [0xE2, 0x80, n]) [0x80, 0x81, 0x82, 0x83, 0x84, 0x85, 0x86, 0x87, 0x88, 0x89,
          0x8A, 0xA8, 0xA9, 0xAF] @
        [[0xE2, 0x81, 0x9F], [0xE3, 0x80, 0x80]])"

fun drop_prefix :: "string \<Rightarrow> string \<Rightarrow> string option" where
  "drop_prefix [] s = Some s"
| "drop_prefix (p # ps) [] = None"
| "drop_prefix (p # ps) (x # xs) = (if p = x then drop_prefix ps xs else None)"

text \<open>The rest of the string after the first pattern that is a prefix of it.\<close>

fun drop_any :: "string list \<Rightarrow> string \<Rightarrow> string option" where
  "drop_any [] s = None"
| "drop_any (p # ps) s = (case drop_prefix p s of Some r \<Rightarrow> Some r | None \<Rightarrow> drop_any ps s)"

lemma drop_prefix_eq: "drop_prefix p s = Some r \<longleftrightarrow> s = p @ r"
  by (induction p s rule: drop_prefix.induct) auto

lemma drop_any_prefix: "drop_any ps s = Some r \<Longrightarrow> \<exists>p\<in>set ps. s = p @ r"
  by (induction ps) (auto simp: drop_prefix_eq split: option.splits)

lemma drop_any_shorter:
  "drop_any ps s = Some r \<Longrightarrow> [] \<notin> set ps \<Longrightarrow> length r < length s"
  by (auto dest!: drop_any_prefix)

text \<open>The loop that strips patterns from the front; a pattern is never empty.\<close>

function strip_front :: "string list \<Rightarrow> string \<Rightarrow> string" where
  "strip_front ps s =
     (case drop_any (filter (\<lambda>p. p \<noteq> []) ps) s of
        None \<Rightarrow> s
      | Some r \<Rightarrow> strip_front ps r)"
  by pat_completeness auto
termination
  by (relation "measure (\<lambda>(ps, s). length s)") (auto dest: drop_any_shorter)

declare strip_front.simps [simp del]

lemma strip_front_suffix: "\<exists>p. s = p @ strip_front ps s"
proof (induction ps s rule: strip_front.induct)
  case (1 ps s)
  show ?case
  proof (cases "drop_any (filter (\<lambda>p. p \<noteq> []) ps) s")
    case None
    then show ?thesis by (simp add: strip_front.simps)
  next
    case (Some r)
    then have "strip_front ps s = strip_front ps r" by (simp add: strip_front.simps[of ps s])
    moreover obtain p where "s = p @ r" using drop_any_prefix[OF Some] by blast
    moreover obtain q where "r = q @ strip_front ps r" using "1.IH"[OF Some] by blast
    ultimately show ?thesis by (metis append.assoc)
  qed
qed

definition trim_space :: "string \<Rightarrow> string" where
  "trim_space s = rev (strip_front (map rev space_runes) (rev (strip_front space_runes s)))"

lemma trim_space_subset: "set (trim_space s) \<subseteq> set s"
proof -
  have "set (strip_front ps u) \<subseteq> set u" for ps u
    using strip_front_suffix[of u ps] by (metis Un_upper2 set_append)
  then show ?thesis
    unfolding trim_space_def by (metis (no_types, lifting) order_trans set_rev)
qed

text \<open>
  Text whose bytes neither start nor end a white-space rune is left alone; every Go identifier
  in ASCII is such text.
\<close>

definition plain_char :: "char \<Rightarrow> bool" where
  "plain_char c \<longleftrightarrow> 33 \<le> (of_char c :: nat) \<and> (of_char c :: nat) < 127"

lemma drop_any_NoneI:
  "(\<And>p r. p \<in> set ps \<Longrightarrow> s \<noteq> p @ r) \<Longrightarrow> drop_any ps s = None"
proof (induction ps)
  case Nil
  then show ?case by simp
next
  case (Cons p ps)
  have "drop_prefix p s = None"
    using Cons.prems[of p] by (cases "drop_prefix p s") (auto simp: drop_prefix_eq)
  with Cons show ?case by simp
qed

lemma strip_front_plain:
  assumes "\<And>p. p \<in> set ps \<Longrightarrow> p \<noteq> [] \<Longrightarrow> \<not> plain_char (hd p)" and "\<forall>c\<in>set s. plain_char c"
  shows "strip_front ps s = s"
proof -
  have "drop_any (filter (\<lambda>p. p \<noteq> []) ps) s = None"
  proof (rule drop_any_NoneI, rule notI)
    fix p r assume p: "p \<in> set (filter (\<lambda>p. p \<noteq> []) ps)" and s: "s = p @ r"
    then have "hd p \<in> set s" by auto
    with assms(2) have "plain_char (hd p)" by blast
    with assms(1)[of p] p show False by auto
  qed
  then show ?thesis by (simp add: strip_front.simps)
qed

lemma space_runes_not_plain:
  "p \<in> set space_runes \<Longrightarrow> \<not> plain_char (hd p)"
  "p \<in> set (map rev space_runes) \<Longrightarrow> \<not> plain_char (hd p)"
  by (auto simp: space_runes_def plain_char_def)

lemma trim_space_plain: "\<forall>c\<in>set s. plain_char c \<Longrightarrow> trim_space s = s"
  using strip_front_plain[of space_runes s]
    strip_front_plain[of "map rev space_runes" "rev s"] space_runes_not_plain
  by (simp add: trim_space_def)

section \<open>Decimal numbers\<close>

text \<open>\<open>fmt.Sprint\<close> on integers, and its inverse.\<close>

fun nat_string :: "nat \<Rightarrow> string" where
  "nat_string n = (if n < 10 then [char_of (48 + n)] else nat_string (n div 10) @ [char_of (48 + n mod 10)])"

declare nat_string.simps [simp del]

definition int_string :: "int \<Rightarrow> string" where
  "int_string i = (if i < 0 then CHR ''-'' # nat_string (nat (- i)) else nat_string (nat i))"

lemma digit_chars [simp]:
  "char_of (48 :: nat) = CHR ''0''" "char_of (49 :: nat) = CHR ''1''"
  "char_of (50 :: nat) = CHR ''2''" "char_of (51 :: nat) = CHR ''3''"
  "char_of (52 :: nat) = CHR ''4''" "char_of (53 :: nat) = CHR ''5''"
  "char_of (54 :: nat) = CHR ''6''" "char_of (55 :: nat) = CHR ''7''"
  "char_of (56 :: nat) = CHR ''8''" "char_of (57 :: nat) = CHR ''9''"
  by (simp_all add: char_of_def bit_0)

definition parse_nat :: "string \<Rightarrow> nat" where
  "parse_nat s = foldl (\<lambda>n c. 10 * n + (of_char c - 48)) 0 s"

definition parse_int :: "string \<Rightarrow> int" where
  "parse_int s = (case s of [] \<Rightarrow> 0 | c # cs \<Rightarrow>
     if c = CHR ''-'' then - int (parse_nat cs) else int (parse_nat s))"

lemma of_char_digit: "n < 10 \<Longrightarrow> of_char (char_of (48 + n) :: char) = (48 + n :: nat)"
  by (simp add: of_char_of take_bit_eq_mod)

lemma parse_nat_string [simp]: "parse_nat (nat_string n) = n"
proof (induction n rule: nat_string.induct)
  case (1 n)
  show ?case
  proof (cases "n < 10")
    case True
    then show ?thesis by (simp add: nat_string.simps[of n] parse_nat_def of_char_digit)
  next
    case False
    have "parse_nat (nat_string n) = 10 * parse_nat (nat_string (n div 10)) + n mod 10"
      using False by (simp add: nat_string.simps[of n] parse_nat_def of_char_digit)
    with 1 False show ?thesis by simp
  qed
qed

lemma nat_string_digit: "c \<in> set (nat_string n) \<Longrightarrow> \<exists>k<10. c = char_of (48 + k :: nat)"
proof (induction n rule: nat_string.induct)
  case (1 n)
  show ?case
  proof (cases "n < 10")
    case True
    with 1 show ?thesis by (auto simp: nat_string.simps[of n])
  next
    case False
    with "1.prems" have "c \<in> set (nat_string (n div 10)) \<or> c = char_of (48 + n mod 10)"
      by (subst (asm) nat_string.simps) auto
    with 1 False show ?thesis by (metis mod_less_divisor zero_less_numeral)
  qed
qed

lemma digit_not_special: "k < 10 \<Longrightarrow> char_of (48 + k :: nat) \<notin> {CHR ''-'', CHR ''#''}"
  using of_char_digit[of k] by (auto dest!: arg_cong[of _ _ "of_char :: char \<Rightarrow> nat"])

lemma parse_int_string [simp]: "parse_int (int_string i) = i"
proof (cases "i < 0")
  case True
  then show ?thesis by (simp add: parse_int_def int_string_def)
next
  case False
  obtain c cs where s: "nat_string (nat i) = c # cs"
    by (cases "nat_string (nat i)") (auto simp: nat_string.simps[of "nat i"] split: if_splits)
  then have "c \<noteq> CHR ''-''"
    using nat_string_digit[of c "nat i"] digit_not_special by auto
  with False s parse_nat_string[of "nat i"] show ?thesis by (simp add: parse_int_def int_string_def)
qed

lemma nat_string_no_hash: "CHR ''#'' \<notin> set (nat_string n)"
  using nat_string_digit digit_not_special by fastforce

lemma inj_nat_string: "inj nat_string"
  by (metis injI parse_nat_string)

section \<open>64-bit integers\<close>

lemma sint_succ:
  "sint (v + 1 :: 64 word) = (if sint v = 2 ^ 63 - 1 then - (2 ^ 63) else sint v + 1)"
proof -
  have range: "- (2 ^ 63) \<le> sint v" "sint v < 2 ^ 63"
    using sint_greater_eq[of v] sint_less[of v] by simp_all
  have "sint (v + 1) = signed_take_bit 63 (sint v + 1)"
    by (simp add: sint_word_ariths)
  also have "\<dots> = (if sint v = 2 ^ 63 - 1 then - (2 ^ 63) else sint v + 1)"
    using range by (simp add: signed_take_bit_int_eq_self)
  finally show ?thesis .
qed

section \<open>Finite maps\<close>

text \<open>A Go map is finite; \<open>len(m) == 0\<close> is equality with \<^const>\<open>fmempty\<close>.\<close>

lemma fmupd_not_empty [simp]: "fmupd k v m \<noteq> fmempty" "fmempty \<noteq> fmupd k v m"
  by (metis fmempty_lookup fmupd_lookup option.distinct(1))+

lemma fmupd_same_lookup: "fmlookup m k = Some v \<Longrightarrow> fmupd k v m = m"
  by (rule fmap_ext) auto

end
