(* ===== verification/Go_Errors.thy ===== *)
theory Go_Errors
  imports Go_Prelude
begin

text \<open>
  Go's \<open>error\<close> values and panics. \<open>errors.go\<close> declares the three sentinels; the leaf
  errors of the AWS SDK that the code inspects (\<open>types.ConditionalCheckFailedException\<close>,
  \<open>types.TransactionCanceledException\<close>) are constructors, every other leaf error is its text.
  \<open>fmt.Errorf("prefix: %w", err)\<close> is \<open>Wrapped prefix err\<close>: every such call of the
  repository ends in \<open>": %w"\<close>. Functions that return \<open>(T, error)\<close> or panic return
  an \<open>outcome\<close>; functions with effects thread their state (\<open>act\<close>), and keep the
  changes made before an error or a panic.
\<close>

section \<open>Errors\<close>

datatype go_err =
    ErrNotFound
  | ErrOptimisticLock
  | ErrNonDefaultKey
  | CondCheckFailed string
  | TxCanceled "string option list"
  | OtherErr string
  | Wrapped string go_err

text \<open>\<open>errors.Is(err, target)\<close> and \<open>errors.AsType[*T](err)\<close> walk the wrapping chain.\<close>

fun errors_is :: "go_err \<Rightarrow> go_err \<Rightarrow> bool" where
  "errors_is (Wrapped p e) t = (Wrapped p e = t \<or> errors_is e t)"
| "errors_is e t = (e = t)"

fun as_cond_check_failed :: "go_err \<Rightarrow> string option" where
  "as_cond_check_failed (CondCheckFailed m) = Some m"
| "as_cond_check_failed (Wrapped p e) = as_cond_check_failed e"
| "as_cond_check_failed _ = None"

fun as_tx_canceled :: "go_err \<Rightarrow> string option list option" where
  "as_tx_canceled (TxCanceled rs) = Some rs"
| "as_tx_canceled (Wrapped p e) = as_tx_canceled e"
| "as_tx_canceled _ = None"

text \<open>
  The innermost error of a chain: what \<open>errors.Is\<close> finds, when the target is a leaf.
\<close>

fun root_err :: "go_err \<Rightarrow> go_err" where
  "root_err (Wrapped p e) = root_err e"
| "root_err e = e"

definition is_leaf :: "go_err \<Rightarrow> bool" where
  "is_leaf e \<longleftrightarrow> root_err e = e"

lemma root_err_not_Wrapped [simp]: "root_err e \<noteq> Wrapped p e'"
  by (induction e) auto

lemma errors_is_leaf: "is_leaf t \<Longrightarrow> errors_is e t \<longleftrightarrow> root_err e = t"
proof (induction e t rule: errors_is.induct)
  case (1 p e t)
  have "Wrapped p e \<noteq> t"
    using "1.prems" unfolding is_leaf_def by (metis root_err_not_Wrapped)
  with 1 show ?case by simp
qed auto

lemma sentinels_are_leaves [simp]:
  "is_leaf ErrNotFound" "is_leaf ErrOptimisticLock" "is_leaf ErrNonDefaultKey"
  by (simp_all add: is_leaf_def)

lemma errors_is_sentinel [simp]:
  "errors_is e ErrNotFound \<longleftrightarrow> root_err e = ErrNotFound"
  "errors_is e ErrOptimisticLock \<longleftrightarrow> root_err e = ErrOptimisticLock"
  "errors_is e ErrNonDefaultKey \<longleftrightarrow> root_err e = ErrNonDefaultKey"
  by (simp_all add: errors_is_leaf)

lemma as_cond_check_failed_root:
  "as_cond_check_failed e = Some m \<longleftrightarrow> root_err e = CondCheckFailed m"
  by (induction e rule: as_cond_check_failed.induct) auto

lemma as_tx_canceled_root:
  "as_tx_canceled e = Some rs \<longleftrightarrow> root_err e = TxCanceled rs"
  by (induction e rule: as_tx_canceled.induct) auto

section \<open>Outcomes and effects\<close>

datatype 'a outcome = Ok 'a | Fail go_err | Panic string

fun map_ok :: "('a \<Rightarrow> 'b) \<Rightarrow> 'a outcome \<Rightarrow> 'b outcome" where
  "map_ok f (Ok a) = Ok (f a)"
| "map_ok f (Fail e) = Fail e"
| "map_ok f (Panic m) = Panic m"

fun and_then :: "'a outcome \<Rightarrow> ('a \<Rightarrow> 'b outcome) \<Rightarrow> 'b outcome" where
  "and_then (Ok a) f = f a"
| "and_then (Fail e) f = Fail e"
| "and_then (Panic m) f = Panic m"

text \<open>\<open>if err != nil { return fmt.Errorf("prefix: %w", err) }\<close>.\<close>

fun wrap_fail :: "string \<Rightarrow> 'a outcome \<Rightarrow> 'a outcome" where
  "wrap_fail p (Ok a) = Ok a"
| "wrap_fail p (Fail e) = Fail (Wrapped p e)"
| "wrap_fail p (Panic m) = Panic m"

fun of_result :: "go_err + 'a \<Rightarrow> 'a outcome" where
  "of_result (Inl e) = Fail e"
| "of_result (Inr a) = Ok a"

lemma and_then_Ok [simp]: "and_then r f = Ok b \<longleftrightarrow> (\<exists>a. r = Ok a \<and> f a = Ok b)"
  by (cases r) auto

lemma wrap_fail_Ok [simp]: "wrap_fail p r = Ok a \<longleftrightarrow> r = Ok a"
  by (cases r) auto

lemma wrap_fail_Fail: "wrap_fail p r = Fail e \<longleftrightarrow> (\<exists>e'. r = Fail e' \<and> e = Wrapped p e')"
  by (cases r) auto

lemma map_ok_Ok [simp]: "map_ok f r = Ok b \<longleftrightarrow> (\<exists>a. r = Ok a \<and> b = f a)"
  by (cases r) auto

lemma map_ok_Ok_sym [simp]: "Ok b = map_ok f r \<longleftrightarrow> (\<exists>a. r = Ok a \<and> b = f a)"
  by (cases r) auto

lemma of_result_Ok [simp]: "of_result r = Ok a \<longleftrightarrow> r = Inr a"
  by (cases r) auto

type_synonym ('s, 'a) act = "'s \<Rightarrow> 'a outcome \<times> 's"

text \<open>Sequencing: the rest runs on the state the first part left, and only if it succeeded.\<close>

fun continue :: "'a outcome \<times> 's \<Rightarrow> ('a \<Rightarrow> ('s, 'b) act) \<Rightarrow> 'b outcome \<times> 's" where
  "continue (Ok a, s) k = k a s"
| "continue (Fail e, s) k = (Fail e, s)"
| "continue (Panic m, s) k = (Panic m, s)"

lemma continue_Ok:
  "continue r k = (Ok b, s') \<longleftrightarrow> (\<exists>a s. r = (Ok a, s) \<and> k a s = (Ok b, s'))"
  by (cases r; cases "fst r") auto

lemma continue_keeps:
  assumes "P (snd r)" and "\<And>a s. r = (Ok a, s) \<Longrightarrow> P s \<Longrightarrow> P (snd (k a s))"
  shows "P (snd (continue r k))"
  using assms by (cases r; cases "fst r") auto

text \<open>The error of a client call, translated.\<close>

fun map_fail :: "(go_err \<Rightarrow> go_err) \<Rightarrow> 'a outcome \<times> 's \<Rightarrow> 'a outcome \<times> 's" where
  "map_fail f (Fail e, s) = (Fail (f e), s)"
| "map_fail f r = r"

lemma map_fail_Ok [simp]: "map_fail f r = (Ok a, s) \<longleftrightarrow> r = (Ok a, s)"
  by (cases r; cases "fst r") auto

lemma map_fail_snd [simp]: "snd (map_fail f r) = snd r"
  by (cases r; cases "fst r") auto

section \<open>Codecs\<close>

text \<open>
  A pair of fallible functions of which the second reverses the first, on the values that satisfy
  \<open>ok\<close>.
\<close>

locale codec =
  fixes enc :: "'a \<Rightarrow> 'b outcome"
    and dec :: "'b \<Rightarrow> 'a outcome"
    and ok :: "'a \<Rightarrow> bool"
  assumes round_trip: "ok x \<Longrightarrow> enc x = Ok y \<Longrightarrow> dec y = Ok x"
begin

lemma enc_inj: "ok x \<Longrightarrow> ok x' \<Longrightarrow> enc x = Ok y \<Longrightarrow> enc x' = Ok y \<Longrightarrow> x = x'"
  by (metis outcome.inject(1) round_trip)

text \<open>Decoding a transported text, when transport changes nothing the decoder sees.\<close>

lemma round_trip_via: "ok x \<Longrightarrow> enc x = Ok y \<Longrightarrow> dec z = dec y \<Longrightarrow> dec z = Ok x"
  by (simp add: round_trip)

end

end
