(* ===== verification/Go_Reflect.thy ===== *)
theory Go_Reflect
  imports Go_Errors
begin

text \<open>
  The part of Go's type system and of the \<open>reflect\<close> package that the repository uses.
  A type is a \<open>gtype\<close>: the basic types the code handles itself, two opaque library types
  (\<open>time.Time\<close>, \<open>uuid.UUID\<close>), pointers, structs with their package, name and
  fields, and \<open>TOther\<close> for every type the code only passes on (slices, maps, floats).
  A value is a \<open>gval\<close>; the fields of a struct value are in the order of its type's fields.
  A pointer is \<open>None\<close> (nil) or an address of the heap. \<open>time.Time\<close> is nanoseconds
  from the zero time (\<open>IsZero\<close> is \<open>= 0\<close>), \<open>int\<close> is 64 bits. A struct tag
  is its list of \<open>key:"value"\<close> pairs. Bound: an embedded field is promoted when it is
  embedded by value; fields embedded through a pointer are not followed.
\<close>

section \<open>Types and values\<close>

type_synonym go_tag = "(string \<times> string) list"
type_synonym uuid = "128 word"
type_synonym go_int = "64 word"
type_synonym addr = nat

datatype gtype =
    TString | TInt | TBool | TTime | TUUID
  | TOther string
  | TPtr gtype
  | TStruct string string "gfield list"
and gfield = GField (f_name: string) (f_embedded: bool) (f_tag: go_tag) (f_type: gtype)

datatype gval =
    VStr string
  | VInt go_int
  | VBool bool
  | VTime int
  | VUUID uuid
  | VOther nat
  | VPtr "addr option"
  | VStruct "gval list"

type_synonym heap = "addr \<Rightarrow> gval"

text \<open>A value of the type \<open>any\<close>: nil, or a value with its dynamic type.\<close>

type_synonym go_any = "(gtype \<times> gval) option"

abbreviation ptr :: "gtype \<Rightarrow> addr \<Rightarrow> go_any" where
  "ptr t a \<equiv> Some (TPtr t, VPtr (Some a))"

text \<open>\<open>reflect.Type.Name()\<close>, \<open>String()\<close> of a named type, and \<open>Tag.Lookup(key)\<close>.\<close>

fun type_name :: "gtype \<Rightarrow> string" where
  "type_name TString = ''string''"
| "type_name TInt = ''int''"
| "type_name TBool = ''bool''"
| "type_name TTime = ''Time''"
| "type_name TUUID = ''UUID''"
| "type_name (TOther n) = n"
| "type_name (TPtr t) = []"
| "type_name (TStruct p n fs) = n"

fun type_string :: "gtype \<Rightarrow> string" where
  "type_string TTime = ''time.Time''"
| "type_string TUUID = ''uuid.UUID''"
| "type_string (TPtr t) = CHR ''*'' # type_string t"
| "type_string (TStruct p n fs) = p @ ''.'' @ n"
| "type_string t = type_name t"

fun struct_fields :: "gtype \<Rightarrow> gfield list option" where
  "struct_fields (TStruct p n fs) = Some fs"
| "struct_fields t = None"

definition tag_lookup :: "go_tag \<Rightarrow> string \<Rightarrow> string option" where
  "tag_lookup tag key = map_of tag key"

text \<open>Typing of values (a pointer's target is typed where it is read), and the zero value.\<close>

fun has_type :: "gval \<Rightarrow> gtype \<Rightarrow> bool" and has_types :: "gval list \<Rightarrow> gfield list \<Rightarrow> bool" where
  "has_type (VStr s) t = (t = TString)"
| "has_type (VInt i) t = (t = TInt)"
| "has_type (VBool b) t = (t = TBool)"
| "has_type (VTime i) t = (t = TTime)"
| "has_type (VUUID u) t = (t = TUUID)"
| "has_type (VOther k) t = (\<exists>n. t = TOther n)"
| "has_type (VPtr p) t = (\<exists>e. t = TPtr e)"
| "has_type (VStruct vs) t = (case struct_fields t of None \<Rightarrow> False | Some fs \<Rightarrow> has_types vs fs)"
| "has_types [] fs = (fs = [])"
| "has_types (v # vs) fs =
     (case fs of [] \<Rightarrow> False | f # fs' \<Rightarrow> has_type v (f_type f) \<and> has_types vs fs')"

fun zero_value :: "gtype \<Rightarrow> gval" and zero_values :: "gfield list \<Rightarrow> gval list" where
  "zero_value TString = VStr []"
| "zero_value TInt = VInt 0"
| "zero_value TBool = VBool False"
| "zero_value TTime = VTime 0"
| "zero_value TUUID = VUUID 0"
| "zero_value (TOther n) = VOther 0"
| "zero_value (TPtr t) = VPtr None"
| "zero_value (TStruct p n fs) = VStruct (zero_values fs)"
| "zero_values [] = []"
| "zero_values (GField n e tg t # fs) = zero_value t # zero_values fs"

lemma zero_value_typed:
  "has_type (zero_value t) t"
  "has_types (zero_values fs) fs"
  by (induction t and fs rule: zero_value_zero_values.induct) auto

lemma has_types_length: "has_types vs fs \<Longrightarrow> length vs = length fs"
  by (induction vs arbitrary: fs) (auto split: list.splits)

lemma has_types_nth:
  "has_types vs fs \<Longrightarrow> i < length fs \<Longrightarrow> has_type (vs ! i) (f_type (fs ! i))"
  by (induction vs arbitrary: fs i) (auto split: list.splits simp: nth_Cons')

lemma has_types_update:
  "has_types vs fs \<Longrightarrow> i < length fs \<Longrightarrow> has_type v (f_type (fs ! i)) \<Longrightarrow> has_types (vs[i := v]) fs"
  by (induction vs arbitrary: fs i) (auto split: list.splits nat.splits simp: nth_Cons')

section \<open>FieldByName\<close>

text \<open>
  \<open>reflect.Type.FieldByName\<close> searches the embedded structs level by level; at the first level
  with a field of that name it must be the only one, otherwise nothing is found. A level is the
  list of its fields with their index paths.
\<close>

type_synonym level = "(nat list \<times> gfield) list"

definition level_of :: "nat list \<Rightarrow> gfield list \<Rightarrow> level" where
  "level_of p fs = map (\<lambda>(i, f). (p @ [i], f)) (enumerate 0 fs)"

fun embedded_fields :: "nat list \<times> gfield \<Rightarrow> level" where
  "embedded_fields (p, GField n e tg t) =
     (if e then (case t of TStruct _ _ fs \<Rightarrow> level_of p fs | _ \<Rightarrow> []) else [])"

definition level_size :: "level \<Rightarrow> nat" where
  "level_size l = (\<Sum>(p, f) \<leftarrow> l. size f)"

lemma level_size_simps [simp]:
  "level_size [] = 0" "level_size (a # l) = size (snd a) + level_size l"
  "level_size (l @ l') = level_size l + level_size l'"
  by (simp_all add: level_size_def split_beta)

lemma level_size_level_of: "level_size (level_of p fs) \<le> size_list size fs"
proof -
  have "level_size (map (\<lambda>(i, f). (p @ [i], f)) (enumerate k fs)) \<le> size_list size fs" for k
    by (induction fs arbitrary: k) (auto simp: le_SucI intro: add_mono)
  then show ?thesis by (simp add: level_of_def)
qed

lemma level_size_embedded: "level_size (embedded_fields a) < size (snd a)"
proof (cases a)
  case (Pair p f)
  then show ?thesis
    using level_size_level_of[of p]
    by (cases f) (auto split: gtype.splits simp: less_Suc_eq_le le_SucI)
qed

lemma level_size_next: "l \<noteq> [] \<Longrightarrow> level_size (concat (map embedded_fields l)) < level_size l"
proof (induction l)
  case Nil
  then show ?case by simp
next
  case (Cons a l)
  then show ?case
    using level_size_embedded[of a] by (cases "l = []") auto
qed

function search_level :: "string \<Rightarrow> level \<Rightarrow> (nat list \<times> gfield) option" where
  "search_level n l =
     (if l = [] then None
      else (case filter (\<lambda>(p, f). f_name f = n) l of
              [] \<Rightarrow> search_level n (concat (map embedded_fields l))
            | [a] \<Rightarrow> Some a
            | _ \<Rightarrow> None))"
  by pat_completeness auto
termination
  by (relation "measure (\<lambda>(n, l). level_size l)") (auto intro: level_size_next)

declare search_level.simps [simp del]

definition field_by_name :: "gtype \<Rightarrow> string \<Rightarrow> (nat list \<times> gfield) option" where
  "field_by_name t n =
     (case struct_fields t of None \<Rightarrow> None | Some fs \<Rightarrow> search_level n (level_of [] fs))"

section \<open>Reading and writing fields\<close>

text \<open>
  \<open>FieldByIndex\<close> follows an index path; \<open>put_at\<close> is the assignment through the
  addressable value it returns. \<open>type_at\<close> is the type at a path.
\<close>

fun get_at :: "gval \<Rightarrow> nat list \<Rightarrow> gval option" where
  "get_at v [] = Some v"
| "get_at (VStruct vs) (i # p) = (if i < length vs then get_at (vs ! i) p else None)"
| "get_at v (i # p) = None"

fun put_at :: "gval \<Rightarrow> nat list \<Rightarrow> gval \<Rightarrow> gval" where
  "put_at v [] x = x"
| "put_at (VStruct vs) (i # p) x =
     (if i < length vs then VStruct (vs[i := put_at (vs ! i) p x]) else VStruct vs)"
| "put_at v (i # p) x = v"

fun type_at :: "gtype \<Rightarrow> nat list \<Rightarrow> gtype option" where
  "type_at t [] = Some t"
| "type_at (TStruct k n fs) (i # p) = (if i < length fs then type_at (f_type (fs ! i)) p else None)"
| "type_at t (i # p) = None"

text \<open>Two paths neither of which runs through the other's end.\<close>

fun apart :: "nat list \<Rightarrow> nat list \<Rightarrow> bool" where
  "apart (i # p) (j # q) = (i \<noteq> j \<or> apart p q)"
| "apart p q = False"

lemma has_type_TStruct:
  "has_type v (TStruct k n fs) \<longleftrightarrow> (\<exists>vs. v = VStruct vs \<and> has_types vs fs)"
  by (cases v) auto

lemma has_type_VStruct_cases:
  assumes "has_type (VStruct vs) t"
  obtains k n fs where "t = TStruct k n fs" and "has_types vs fs"
  using assms by (cases t) auto

lemma get_at_typed:
  "has_type v t \<Longrightarrow> type_at t p = Some t' \<Longrightarrow> \<exists>v'. get_at v p = Some v' \<and> has_type v' t'"
proof (induction t p arbitrary: v rule: type_at.induct)
  case (2 k n fs i p)
  then obtain vs where vs: "v = VStruct vs" "has_types vs fs"
    by (auto simp: has_type_TStruct)
  with 2 show ?case
    by (auto simp: has_types_length has_types_nth split: if_splits)
qed auto

lemma put_at_typed:
  "has_type v t \<Longrightarrow> type_at t p = Some t' \<Longrightarrow> has_type x t' \<Longrightarrow> has_type (put_at v p x) t"
proof (induction t p arbitrary: v rule: type_at.induct)
  case (2 k n fs i p)
  then obtain vs where vs: "v = VStruct vs" "has_types vs fs"
    by (auto simp: has_type_TStruct)
  with 2 show ?case
    by (auto simp: has_types_length has_types_nth has_types_update split: if_splits)
qed auto

lemma get_put_same: "get_at v p \<noteq> None \<Longrightarrow> get_at (put_at v p x) p = Some x"
  by (induction v p x rule: put_at.induct) (auto split: if_splits)

lemma get_put_apart: "apart p q \<Longrightarrow> get_at (put_at v p x) q = get_at v q"
proof (induction p q arbitrary: v rule: apart.induct)
  case (1 i p j q)
  then show ?case by (cases v) (auto simp: nth_list_update)
qed auto

lemma put_put_apart: "apart p q \<Longrightarrow> put_at (put_at v p x) q y = put_at (put_at v q y) p x"
proof (induction p q arbitrary: v rule: apart.induct)
  case (1 i p j q)
  then show ?case by (cases v; cases "i = j") (auto simp: list_update_swap nth_list_update)
qed auto

lemma get_at_append:
  "get_at v (p @ q) = (case get_at v p of None \<Rightarrow> None | Some u \<Rightarrow> get_at u q)"
  by (induction v p rule: get_at.induct) auto

lemma type_at_append:
  "type_at t (p @ q) = (case type_at t p of None \<Rightarrow> None | Some u \<Rightarrow> type_at u q)"
  by (induction t p rule: type_at.induct) auto

lemma put_put_same [simp]: "put_at (put_at v p x) p y = put_at v p y"
  by (induction v p x rule: put_at.induct) auto

lemma put_get_id: "get_at v p = Some x \<Longrightarrow> put_at v p x = v"
  by (induction v p x rule: put_at.induct) (auto split: if_splits)

text \<open>What a field search finds lies in the type: every entry of a level does.\<close>

definition level_in :: "gtype \<Rightarrow> level \<Rightarrow> bool" where
  "level_in t l \<longleftrightarrow> (\<forall>(p, f) \<in> set l. p \<noteq> [] \<and> type_at t p = Some (f_type f))"

lemma set_level_of: "(q, f) \<in> set (level_of p fs) \<longleftrightarrow> (\<exists>i<length fs. q = p @ [i] \<and> f = fs ! i)"
  by (auto simp: level_of_def in_set_enumerate_eq)

lemma level_in_start: "struct_fields t = Some fs \<Longrightarrow> level_in t (level_of [] fs)"
  by (cases t) (auto simp: level_in_def set_level_of)

lemma embedded_fields_mem:
  assumes "(q, g) \<in> set (embedded_fields (p, f))"
  shows "\<exists>k m fs i. f_type f = TStruct k m fs \<and> i < length fs \<and> q = p @ [i] \<and> g = fs ! i"
proof (cases f)
  case (GField n e tg t')
  show ?thesis
  proof (cases e)
    case True
    with assms GField have "(q, g) \<in> set (case t' of TStruct _ _ fs \<Rightarrow> level_of p fs | _ \<Rightarrow> [])"
      by simp
    with GField show ?thesis by (cases t') (simp_all add: set_level_of)
  next
    case False
    with assms GField show ?thesis by simp
  qed
qed

lemma level_in_next:
  assumes "level_in t l"
  shows "level_in t (concat (map embedded_fields l))"
proof -
  have "q \<noteq> [] \<and> type_at t q = Some (f_type g)"
    if mem: "(q, g) \<in> set (concat (map embedded_fields l))" for q g
  proof -
    from mem obtain p f where pf: "(p, f) \<in> set l" "(q, g) \<in> set (embedded_fields (p, f))"
      by auto
    from assms pf(1) have "type_at t p = Some (f_type f)" by (auto simp: level_in_def)
    moreover obtain k m fs i where
      "f_type f = TStruct k m fs" "i < length fs" "q = p @ [i]" "g = fs ! i"
      using embedded_fields_mem[OF pf(2)] by blast
    ultimately show ?thesis by (simp add: type_at_append)
  qed
  then show ?thesis by (auto simp: level_in_def)
qed

lemma search_level_found:
  "level_in t l \<Longrightarrow> search_level n l = Some (p, f) \<Longrightarrow>
   p \<noteq> [] \<and> type_at t p = Some (f_type f) \<and> f_name f = n"
proof (induction n l rule: search_level.induct)
  case (1 n l)
  show ?case
  proof (cases "filter (\<lambda>(p, f). f_name f = n) l")
    case Nil
    have "l \<noteq> []" and "search_level n (concat (map embedded_fields l)) = Some (p, f)"
      using "1.prems"(2) Nil by (auto simp: search_level.simps[of n l] split: if_splits)
    then show ?thesis using "1.IH" Nil "1.prems"(1) level_in_next by blast
  next
    case (Cons a as)
    then have "as = []" and "a = (p, f)"
      using "1.prems"(2) by (auto simp: search_level.simps[of n l] split: if_splits list.splits)
    with Cons have "(p, f) \<in> set (filter (\<lambda>(p, f). f_name f = n) l)" by simp
    with "1.prems"(1) show ?thesis by (auto simp: level_in_def)
  qed
qed

lemma field_by_name_found:
  "field_by_name t n = Some (p, f) \<Longrightarrow> p \<noteq> [] \<and> type_at t p = Some (f_type f) \<and> f_name f = n"
  by (cases "struct_fields t") (auto simp: field_by_name_def dest: search_level_found[OF level_in_start])

text \<open>A field of the struct itself is found at its index, when field names are distinct.\<close>

lemma direct_field:
  assumes "distinct (map f_name fs)" and "i < length fs"
  shows "field_by_name (TStruct k m fs) (f_name (fs ! i)) = Some ([i], fs ! i)"
proof -
  have "filter (\<lambda>(p, f). f_name f = f_name (fs ! i)) (map (\<lambda>(j, f). (pre @ [j], f)) (enumerate b fs)) =
      [(pre @ [b + i], fs ! i)]" for pre b
    using assms
  proof (induction fs arbitrary: i b)
    case Nil
    then show ?case by simp
  next
    case (Cons g gs)
    have other: "f_name (gs ! j) \<noteq> f_name g" if "j < length gs" for j
      using Cons.prems(1) nth_mem[OF that] by (metis distinct.simps(2) image_eqI list.set_map list.simps(9))
    show ?case
    proof (cases i)
      case 0
      have "filter (\<lambda>(p, f). f_name f = f_name g)
          (map (\<lambda>(j, f). (pre @ [j], f)) (enumerate (Suc b) gs)) = []"
        using other by (auto simp: filter_empty_conv in_set_enumerate_eq less_diff_conv2)
      with 0 show ?thesis by simp
    next
      case (Suc j)
      with Cons.prems other have "f_name (gs ! j) \<noteq> f_name g" by simp
      with Suc Cons.IH[of j "Suc b"] Cons.prems show ?thesis by simp
    qed
  qed
  from this[of "[]" 0] show ?thesis
    using assms(2) by (cases fs) (auto simp: field_by_name_def search_level.simps level_of_def)
qed

text \<open>\<open>reflect.Value.FieldByName\<close>: the field's type and value; nothing when it is not found.\<close>

definition value_field :: "gtype \<Rightarrow> gval \<Rightarrow> string \<Rightarrow> (gtype \<times> gval) option" where
  "value_field t v n =
     (case field_by_name t n of
        None \<Rightarrow> None
      | Some (p, f) \<Rightarrow> map_option (\<lambda>x. (f_type f, x)) (get_at v p))"

lemma value_field_typed:
  assumes "has_type v t" and "field_by_name t n = Some (p, f)"
  shows "\<exists>x. value_field t v n = Some (f_type f, x) \<and> get_at v p = Some x \<and> has_type x (f_type f)"
  using get_at_typed[OF assms(1), of p "f_type f"] field_by_name_found[OF assms(2)]
  by (auto simp: value_field_def assms(2))

text \<open>
  A field is exported when its name starts with an upper-case letter (ASCII here);
  \<open>Interface()\<close> panics and \<open>CanSet()\<close> is false on the others.
\<close>

definition exported :: "string \<Rightarrow> bool" where
  "exported n = (case n of [] \<Rightarrow> False | c # _ \<Rightarrow> 65 \<le> (of_char c :: nat) \<and> (of_char c :: nat) \<le> 90)"

end
