(* ===== verification/Entity_Model.thy ===== *)
theory Entity_Model
  imports Go_Reflect
begin

text \<open>
  \<open>model.go\<close>: the \<open>Model\<close> struct every entity embeds, and \<open>SetType\<close>. The record
  \<open>model\<close> is the Go struct; \<open>val_of_model\<close> and \<open>model_of_val\<close> are its
  representation as a reflected value (\<open>mf.Interface().(Model)\<close> and the writes back through
  \<open>mf.FieldByName(...).Set...\<close>). An entity is addressed through a pointer, so its value lives
  in the heap.
\<close>

record model =
  m_ID :: uuid
  m_Type :: string
  m_CreatedAt :: int
  m_CreatedBy :: string
  m_UpdatedAt :: int
  m_UpdatedBy :: string
  m_Version :: go_int

definition model_type :: gtype where
  "model_type = TStruct ''godynamo'' ''Model''
     [GField ''ID'' False [] TUUID,
      GField ''Type'' False [] TString,
      GField ''CreatedAt'' False [] TTime,
      GField ''CreatedBy'' False [] TString,
      GField ''UpdatedAt'' False [] TTime,
      GField ''UpdatedBy'' False [] TString,
      GField ''Version'' False [] TInt]"

definition val_of_model :: "model \<Rightarrow> gval" where
  "val_of_model m = VStruct [VUUID (m_ID m), VStr (m_Type m), VTime (m_CreatedAt m),
     VStr (m_CreatedBy m), VTime (m_UpdatedAt m), VStr (m_UpdatedBy m), VInt (m_Version m)]"

fun as_str :: "gval \<Rightarrow> string option" where
  "as_str (VStr s) = Some s"
| "as_str _ = None"

fun as_time :: "gval \<Rightarrow> int option" where
  "as_time (VTime t) = Some t"
| "as_time _ = None"

fun as_uuid :: "gval \<Rightarrow> uuid option" where
  "as_uuid (VUUID u) = Some u"
| "as_uuid _ = None"

fun as_int :: "gval \<Rightarrow> go_int option" where
  "as_int (VInt i) = Some i"
| "as_int _ = None"

fun struct_values :: "gval \<Rightarrow> gval list" where
  "struct_values (VStruct vs) = vs"
| "struct_values _ = []"

definition model_of_val :: "gval \<Rightarrow> model option" where
  "model_of_val v =
     (let vs = struct_values v in
      if length vs \<noteq> 7 then None
      else Option.bind (as_uuid (vs ! 0)) (\<lambda>i.
           Option.bind (as_str (vs ! 1)) (\<lambda>t.
           Option.bind (as_time (vs ! 2)) (\<lambda>ca.
           Option.bind (as_str (vs ! 3)) (\<lambda>cb.
           Option.bind (as_time (vs ! 4)) (\<lambda>ua.
           Option.bind (as_str (vs ! 5)) (\<lambda>ub.
           Option.bind (as_int (vs ! 6)) (\<lambda>ver.
             Some \<lparr>m_ID = i, m_Type = t, m_CreatedAt = ca, m_CreatedBy = cb,
               m_UpdatedAt = ua, m_UpdatedBy = ub, m_Version = ver\<rparr>))))))))"

lemma model_of_val_of_model [simp]: "model_of_val (val_of_model m) = Some m"
  by (simp add: val_of_model_def model_of_val_def)

lemma has_types_Cons:
  "has_types vs (f # fs) \<longleftrightarrow> (\<exists>v vs'. vs = v # vs' \<and> has_type v (f_type f) \<and> has_types vs' fs)"
  by (cases vs) auto

lemma has_types_Nil: "has_types vs [] \<longleftrightarrow> vs = []"
  by (cases vs) auto

lemma has_type_basic:
  "has_type v TString \<longleftrightarrow> (\<exists>s. v = VStr s)" "has_type v TInt \<longleftrightarrow> (\<exists>i. v = VInt i)"
  "has_type v TTime \<longleftrightarrow> (\<exists>t. v = VTime t)" "has_type v TUUID \<longleftrightarrow> (\<exists>u. v = VUUID u)"
  "has_type v (TPtr e) \<longleftrightarrow> (\<exists>p. v = VPtr p)"
  by (cases v; auto split: option.splits elim: struct_fields.elims)+

lemma has_type_model: "has_type v model_type \<longleftrightarrow> (\<exists>m. v = val_of_model m)"
proof
  assume "has_type v model_type"
  then obtain i t ca cb ua ub ver where
    "v = VStruct [VUUID i, VStr t, VTime ca, VStr cb, VTime ua, VStr ub, VInt ver]"
    by (auto simp: model_type_def has_type_TStruct has_types_Cons has_types_Nil has_type_basic)
  then show "\<exists>m. v = val_of_model m"
    by (intro exI[of _ "\<lparr>m_ID = i, m_Type = t, m_CreatedAt = ca, m_CreatedBy = cb,
      m_UpdatedAt = ua, m_UpdatedBy = ub, m_Version = ver\<rparr>"]) (simp add: val_of_model_def)
qed (auto simp: val_of_model_def model_type_def)

text \<open>The embedded Model of a struct type: its index path, when it has one.\<close>

definition model_path :: "gtype \<Rightarrow> nat list option" where
  "model_path t =
     (case field_by_name t ''Model'' of
        None \<Rightarrow> None
      | Some (p, f) \<Rightarrow> if f_type f = model_type then Some p else None)"

definition model_at :: "gtype \<Rightarrow> gval \<Rightarrow> model option" where
  "model_at t v =
     (case model_path t of None \<Rightarrow> None | Some p \<Rightarrow> Option.bind (get_at v p) model_of_val)"

definition with_model :: "gtype \<Rightarrow> (model \<Rightarrow> model) \<Rightarrow> gval \<Rightarrow> gval" where
  "with_model t f v =
     (case (model_path t, model_at t v) of
        (Some p, Some m) \<Rightarrow> put_at v p (val_of_model (f m))
      | _ \<Rightarrow> v)"

text \<open>
  \<open>SetType(v)\<close>: the three checks with their panics, then the write of the type's name into
  the embedded Model.
\<close>

definition SetType :: "go_any \<Rightarrow> (heap, unit) act" where
  "SetType x h =
     (case x of
        Some (TPtr t, VPtr (Some a)) \<Rightarrow>
          (if struct_fields t = None
           then (Panic ''godynamo: SetType requires a pointer to a struct'', h)
           else if model_path t = None
           then (Panic ''godynamo: SetType requires a struct embedding godynamo.Model'', h)
           else (Ok (), h(a := with_model t (\<lambda>m. m\<lparr>m_Type := type_name t\<rparr>) (h a))))
      | _ \<Rightarrow>
          (Panic ''godynamo: SetType requires a non-nil pointer to a struct embedding Model'', h))"

lemma model_path_found:
  "model_path t = Some p \<Longrightarrow> p \<noteq> [] \<and> type_at t p = Some model_type"
  using field_by_name_found[of t "''Model''"]
  by (auto simp: model_path_def split: option.splits if_splits)

lemma model_at_typed:
  assumes "model_path t = Some p" and "has_type v t"
  shows "\<exists>m. model_at t v = Some m \<and> get_at v p = Some (val_of_model m)"
  using get_at_typed[OF assms(2)] model_path_found[OF assms(1)] assms(1)
  by (fastforce simp: model_at_def has_type_model)

lemma with_model_typed:
  assumes "has_type v t"
  shows "has_type (with_model t f v) t"
proof (cases "model_path t")
  case None
  with assms show ?thesis by (simp add: with_model_def)
next
  case (Some p)
  with assms show ?thesis
    using model_path_found[OF Some]
    by (auto simp: with_model_def has_type_model intro!: put_at_typed split: option.splits)
qed

lemma model_at_with_model:
  assumes "model_path t = Some p" and "has_type v t" and "model_at t v = Some m"
  shows "model_at t (with_model t f v) = Some (f m)"
  using assms model_at_typed[OF assms(1,2)]
  by (auto simp: with_model_def model_at_def get_put_same)

lemma with_model_frame:
  "model_path t = Some p \<Longrightarrow> apart p q \<Longrightarrow> get_at (with_model t f v) q = get_at v q"
  by (auto simp: with_model_def get_put_apart split: option.splits)

lemma with_model_twice:
  assumes "model_path t = Some p" and "has_type v t"
  shows "with_model t g (with_model t f v) = with_model t (g \<circ> f) v"
proof -
  obtain m where m: "model_at t v = Some m" "get_at v p = Some (val_of_model m)"
    using model_at_typed[OF assms] by blast
  then show ?thesis
    using model_at_with_model[OF assms m(1), of f] assms(1) by (simp add: with_model_def)
qed

end
