(* ===== verification/Tags.thy ===== *)
theory Tags
  imports Entity_Model
begin

text \<open>
  \<open>tags.go\<close>: the parser of the \<open>dynamo\<close> struct tag (the \<open>pk:\<close> and
  \<open>sk:\<close> clauses on the embedded Model, the bare keyword \<open>compress\<close> on the other
  fields), its per-type cache, and the resolution of a Go field name to the attribute name it is
  marshaled under. A nil and an empty field list are both \<open>[]\<close>: the callers only take the
  length.
\<close>

record model_tags =
  structName :: string
  pkFields :: "string list"
  skFields :: "string list"
  compressFields :: "string list"

text \<open>\<open>splitFields\<close>.\<close>

definition split_fields :: "string \<Rightarrow> string list" where
  "split_fields val = filter (\<lambda>p. p \<noteq> []) (map trim_space (split_on (CHR '','') val))"

text \<open>One turn of the loop of \<open>parseModelClauses\<close>, then the loop.\<close>

definition parse_clause :: "string \<Rightarrow> model_tags \<Rightarrow> model_tags" where
  "parse_clause clause mt =
     (let c = trim_space clause in
      if c = [] then mt
      else (let (key, val, found) = cut_at (CHR '':'') c in
        if \<not> found then mt
        else (let k = trim_space key; fields = split_fields val in
          if k = ''pk'' then mt\<lparr>pkFields := fields\<rparr>
          else if k = ''sk'' then mt\<lparr>skFields := fields\<rparr>
          else mt)))"

definition parse_model_clauses :: "model_tags \<Rightarrow> gfield \<Rightarrow> model_tags" where
  "parse_model_clauses mt field =
     (case tag_lookup (f_tag field) ''dynamo'' of
        None \<Rightarrow> mt
      | Some tag \<Rightarrow>
          (if trim_space tag = [] then mt
           else fold parse_clause (split_on (CHR '';'') tag) mt))"

text \<open>\<open>parseCompressFields\<close>: the direct fields, in order, whose type is not Model.\<close>

definition parse_compress_fields :: "gtype \<Rightarrow> string list" where
  "parse_compress_fields t =
     (case struct_fields t of
        None \<Rightarrow> []
      | Some fs \<Rightarrow>
          map f_name (filter (\<lambda>f. f_type f \<noteq> model_type \<and>
            (case tag_lookup (f_tag f) ''dynamo'' of
               None \<Rightarrow> False
             | Some val \<Rightarrow> trim_space val = ''compress'')) fs))"

text \<open>\<open>parseTags\<close> on a type the cache does not hold.\<close>

definition parse_tags :: "gtype \<Rightarrow> model_tags outcome" where
  "parse_tags t =
     (case struct_fields t of
        None \<Rightarrow> Panic (''reflect: FieldByName of non-struct type '' @ type_string t)
      | Some _ \<Rightarrow>
          (case field_by_name t ''Model'' of
             None \<Rightarrow>
               Panic (''godynamo: struct '' @ type_name t @ '' must embed godynamo.Model'')
           | Some (p, field) \<Rightarrow>
               (if f_type field \<noteq> model_type
                then Panic (''godynamo: struct '' @ type_name t @ '' must embed godynamo.Model'')
                else Ok ((parse_model_clauses
                  \<lparr>structName = type_name t, pkFields = [], skFields = [], compressFields = []\<rparr>
                  field)\<lparr>compressFields := parse_compress_fields t\<rparr>))))"

text \<open>
  \<open>parseTags\<close> with its process-wide cache (\<open>tagCache\<close>, a \<open>sync.Map\<close>). Between
  the failed \<open>Load\<close> and the \<open>LoadOrStore\<close> other goroutines may have changed the
  cache: \<open>between\<close> is the cache as the \<open>LoadOrStore\<close> finds it.
\<close>

type_synonym tag_cache = "(gtype, model_tags) fmap"

definition parse_tags_cached ::
    "(tag_cache \<Rightarrow> tag_cache) \<Rightarrow> gtype \<Rightarrow> (tag_cache, model_tags) act" where
  "parse_tags_cached between t c =
     (case fmlookup c t of
        Some mt \<Rightarrow> (Ok mt, c)
      | None \<Rightarrow>
          (case parse_tags t of
             Ok mt \<Rightarrow>
               (let c' = between c in
                case fmlookup c' t of
                  Some actual \<Rightarrow> (Ok actual, c')
                | None \<Rightarrow> (Ok mt, fmupd t mt c'))
           | Fail e \<Rightarrow> (Fail e, between c)
           | Panic m \<Rightarrow> (Panic m, between c)))"

definition cache_sound :: "tag_cache \<Rightarrow> bool" where
  "cache_sound c \<longleftrightarrow> (\<forall>t mt. fmlookup c t = Some mt \<longrightarrow> parse_tags t = Ok mt)"

text \<open>\<open>resolveAttrName\<close>.\<close>

definition resolve_attr_name :: "gtype \<Rightarrow> string \<Rightarrow> string" where
  "resolve_attr_name t goFieldName =
     (case field_by_name t goFieldName of
        None \<Rightarrow> goFieldName
      | Some (p, field) \<Rightarrow>
          (case tag_lookup (f_tag field) ''dynamodbav'' of
             None \<Rightarrow> goFieldName
           | Some tagStr \<Rightarrow>
               (let name = fst (cut_at (CHR '','') tagStr) in
                if name = [] \<or> name = ''-'' then goFieldName else name)))"

lemma parse_tags_found:
  assumes "field_by_name t ''Model'' = Some (p, field)" and "f_type field = model_type"
  shows "parse_tags t = Ok ((parse_model_clauses
    \<lparr>structName = type_name t, pkFields = [], skFields = [], compressFields = []\<rparr> field)
    \<lparr>compressFields := parse_compress_fields t\<rparr>)"
  using assms by (auto simp: parse_tags_def field_by_name_def split: option.splits)

section \<open>What the parser keeps of its input\<close>

definition field_token :: "string \<Rightarrow> bool" where
  "field_token p \<longleftrightarrow> p \<noteq> [] \<and> CHR '','' \<notin> set p \<and> CHR '';'' \<notin> set p"

lemma split_fields_tokens:
  assumes "CHR '';'' \<notin> set val"
  shows "list_all field_token (split_fields val)"
proof -
  have "field_token (trim_space q)" if "q \<in> set (split_on (CHR '','') val)" "trim_space q \<noteq> []" for q
    using that assms split_on_no_sep[OF that(1)] split_on_subset[OF that(1)] trim_space_subset[of q]
    by (auto simp: field_token_def)
  then show ?thesis by (auto simp: split_fields_def list_all_iff)
qed

lemma parse_clause_tokens:
  assumes "CHR '';'' \<notin> set clause"
    and "list_all field_token (pkFields mt)" and "list_all field_token (skFields mt)"
  shows "list_all field_token (pkFields (parse_clause clause mt)) \<and>
    list_all field_token (skFields (parse_clause clause mt))"
proof -
  have "set (fst (snd (cut_at c s))) \<subseteq> set s" for c s
    by (auto simp: cut_at_def dest!: list.set_sel(2)[rotated] dest: set_dropWhileD)
  then have "CHR '';'' \<notin> set (fst (snd (cut_at (CHR '':'') (trim_space clause))))"
    using assms(1) trim_space_subset by blast
  then have "list_all field_token (split_fields (fst (snd (cut_at (CHR '':'') (trim_space clause)))))"
    by (rule split_fields_tokens)
  with assms(2,3) show ?thesis
    by (simp add: parse_clause_def Let_def split_beta)
qed

lemma parse_clauses_tokens:
  assumes "\<forall>c\<in>set cs. CHR '';'' \<notin> set c"
    and "list_all field_token (pkFields mt)" and "list_all field_token (skFields mt)"
  shows "list_all field_token (pkFields (fold parse_clause cs mt)) \<and>
    list_all field_token (skFields (fold parse_clause cs mt))"
  using assms by (induction cs arbitrary: mt) (auto simp: parse_clause_tokens)

section \<open>The documented grammar\<close>

text \<open>
  The tag's documented form, as the reference for the parser: the clauses that are present,
  \<open>pk:\<close> before \<open>sk:\<close> or after it, separated by \<open>;\<close>, each with its
  field names separated by \<open>,\<close>.
\<close>

definition plain_name :: "string \<Rightarrow> bool" where
  "plain_name n \<longleftrightarrow> n \<noteq> [] \<and>
     (\<forall>c\<in>set n. plain_char c \<and> c \<noteq> CHR '','' \<and> c \<noteq> CHR '';'' \<and> c \<noteq> CHR '':'')"

definition render_clause :: "string \<Rightarrow> string list \<Rightarrow> string list" where
  "render_clause key fns =
     (if fns = [] then [] else [key @ CHR '':'' # join_with '','' fns])"

definition render_tag :: "bool \<Rightarrow> string list \<Rightarrow> string list \<Rightarrow> string" where
  "render_tag pk_first pks sks = join_with '';''
     (if pk_first then render_clause ''pk'' pks @ render_clause ''sk'' sks
      else render_clause ''sk'' sks @ render_clause ''pk'' pks)"

lemma plain_char_consts [simp]:
  "plain_char (CHR '','')" "plain_char (CHR '':'')" "plain_char (CHR '';'')"
  "plain_char (CHR ''p'')" "plain_char (CHR ''s'')" "plain_char (CHR ''k'')"
  by (simp_all add: plain_char_def)

lemma plain_name_chars:
  "list_all plain_name fns \<Longrightarrow> x \<in> set fns \<Longrightarrow> c \<in> set x \<Longrightarrow>
   plain_char c \<and> c \<noteq> CHR '','' \<and> c \<noteq> CHR '';'' \<and> c \<noteq> CHR '':''"
  "list_all plain_name fns \<Longrightarrow> x \<in> set fns \<Longrightarrow> x \<noteq> []"
  by (simp_all add: list_all_iff plain_name_def)

lemma set_join_with: "set (join_with sep xs) \<subseteq> set sep \<union> (\<Union>x\<in>set xs. set x)"
  by (induction sep xs rule: join_with.induct) auto

lemma join_names_chars:
  assumes "list_all plain_name fns"
  shows "\<forall>c\<in>set (join_with '','' fns). plain_char c \<and> c \<noteq> CHR '';'' \<and> c \<noteq> CHR '':''"
proof
  fix c assume "c \<in> set (join_with '','' fns)"
  then have "c = CHR '','' \<or> (\<exists>x\<in>set fns. c \<in> set x)" using set_join_with by fastforce
  then show "plain_char c \<and> c \<noteq> CHR '';'' \<and> c \<noteq> CHR '':''"
    using plain_name_chars(1)[OF assms] by fastforce
qed

lemma split_fields_join:
  assumes "list_all plain_name fns" and "fns \<noteq> []"
  shows "split_fields (join_with '','' fns) = fns"
proof -
  have "split_on (CHR '','') (join_with '','' fns) = fns"
    using assms(2) plain_name_chars(1)[OF assms(1)] by (intro split_on_join) blast+
  moreover have "map trim_space fns = fns"
    using plain_name_chars(1)[OF assms(1)] by (intro map_idI trim_space_plain) blast
  moreover have "filter (\<lambda>p. p \<noteq> []) fns = fns"
    using plain_name_chars(2)[OF assms(1)] by (simp add: filter_id_conv)
  ultimately show ?thesis by (simp add: split_fields_def)
qed

lemma plain_pk_sk: "\<forall>c\<in>set ''pk''. plain_char c" "\<forall>c\<in>set ''sk''. plain_char c"
  by simp_all

lemma clause_chars:
  assumes "list_all plain_name fns" and "k \<in> {''pk'', ''sk''}"
  shows "\<forall>c\<in>set (k @ CHR '':'' # join_with '','' fns). plain_char c \<and> c \<noteq> CHR '';''"
proof -
  have "\<forall>c\<in>set k. plain_char c \<and> c \<noteq> CHR '';''" using assms(2) by auto
  then show ?thesis using join_names_chars[OF assms(1)] by (simp add: ball_Un)
qed

lemma parse_clause_render:
  assumes "list_all plain_name fns" and "fns \<noteq> []"
  shows "parse_clause (''pk'' @ CHR '':'' # join_with '','' fns) mt = mt\<lparr>pkFields := fns\<rparr>"
    and "parse_clause (''sk'' @ CHR '':'' # join_with '','' fns) mt = mt\<lparr>skFields := fns\<rparr>"
proof -
  have trim: "trim_space (k @ CHR '':'' # join_with '','' fns) = k @ CHR '':'' # join_with '','' fns"
    if "k \<in> {''pk'', ''sk''}" for k
    using clause_chars[OF assms(1) that] by (intro trim_space_plain) blast
  have cut: "cut_at (CHR '':'') (k @ CHR '':'' # join_with '','' fns) =
      (k, join_with '','' fns, True)" if "k \<in> {''pk'', ''sk''}" for k
    using that by (intro cut_at_append) auto
  show "parse_clause (''pk'' @ CHR '':'' # join_with '','' fns) mt = mt\<lparr>pkFields := fns\<rparr>"
    unfolding parse_clause_def Let_def trim[of "''pk''", simplified] cut[of "''pk''", simplified]
    by (simp add: trim[of "''pk''", simplified] cut[of "''pk''", simplified]
        trim_space_plain[OF plain_pk_sk(1)] split_fields_join[OF assms])
  show "parse_clause (''sk'' @ CHR '':'' # join_with '','' fns) mt = mt\<lparr>skFields := fns\<rparr>"
    by (simp add: parse_clause_def trim[of "''sk''", simplified] cut[of "''sk''", simplified]
        trim_space_plain[OF plain_pk_sk(2)] split_fields_join[OF assms])
qed

lemma fold_render_clauses:
  assumes "list_all plain_name pks" and "list_all plain_name sks"
  shows "fold parse_clause (render_clause ''pk'' pks) mt = (if pks = [] then mt else mt\<lparr>pkFields := pks\<rparr>)"
    and "fold parse_clause (render_clause ''sk'' sks) mt = (if sks = [] then mt else mt\<lparr>skFields := sks\<rparr>)"
  using parse_clause_render[of pks] parse_clause_render[of sks] assms
  by (simp_all add: render_clause_def)

lemma parse_rendered_clauses:
  assumes names: "list_all plain_name pks" "list_all plain_name sks"
    and tag: "tag_lookup tg ''dynamo'' = Some (render_tag first pks sks)"
    and mt: "pkFields mt = []" "skFields mt = []"
  shows "parse_model_clauses mt (GField n e tg t) = mt\<lparr>pkFields := pks, skFields := sks\<rparr>"
proof -
  define cs where "cs = (if first then render_clause ''pk'' pks @ render_clause ''sk'' sks
     else render_clause ''sk'' sks @ render_clause ''pk'' pks)"
  have folded: "fold parse_clause cs mt = mt\<lparr>pkFields := pks, skFields := sks\<rparr>"
    using names mt by (auto simp: cs_def fold_render_clauses)
  have chars: "\<forall>x\<in>set cs. \<forall>c\<in>set x. plain_char c \<and> c \<noteq> CHR '';''"
    using clause_chars[OF names(1)] clause_chars[OF names(2)]
    by (auto simp: cs_def render_clause_def split: if_splits)
  show ?thesis
  proof (cases "cs = []")
    case True
    then have "render_tag first pks sks = []" by (simp add: render_tag_def cs_def)
    with folded True tag show ?thesis
      by (simp add: parse_model_clauses_def trim_space_plain)
  next
    case False
    have tag_eq: "render_tag first pks sks = join_with '';'' cs" by (simp add: render_tag_def cs_def)
    have "\<forall>c\<in>set (join_with '';'' cs). plain_char c"
      using chars set_join_with[of "'';''" cs] by fastforce
    then have "trim_space (render_tag first pks sks) = render_tag first pks sks"
      unfolding tag_eq by (rule trim_space_plain)
    moreover have "split_on (CHR '';'') (render_tag first pks sks) = cs"
      unfolding tag_eq using False chars by (intro split_on_join) auto
    moreover have "render_tag first pks sks \<noteq> []"
      using False unfolding tag_eq
      by (cases cs) (auto simp: cs_def render_clause_def join_Cons split: if_splits)
    ultimately show ?thesis using tag folded by (simp add: parse_model_clauses_def)
  qed
qed

section \<open>The example types of the repository's documentation\<close>

text \<open>
  \<open>Order\<close> of the comment in \<open>tags.go\<close> and \<open>Task\<close> of
  \<open>README.md\<close>: the inputs of the witnesses.
\<close>

definition order_type :: gtype where
  "order_type = TStruct ''main'' ''Order''
     [GField ''Model'' True [(''dynamo'', ''pk:CustomerID;sk:Status,CreatedDate'')] model_type,
      GField ''CustomerID'' False [] TString,
      GField ''Status'' False [] TString,
      GField ''CreatedDate'' False [] TString]"

definition task_type :: gtype where
  "task_type = TStruct ''main'' ''Task''
     [GField ''Model'' True [] model_type,
      GField ''Project'' False [] TString,
      GField ''Status'' False [] TString,
      GField ''Title'' False [] TString,
      GField ''Notes'' False [(''dynamo'', ''compress'')] TString]"

text \<open>What closed instances need: the search of a concrete type, and trimming of plain text.\<close>

lemmas field_search = field_by_name_def search_level.simps level_of_def

lemma trim_plain_eq: "list_all plain_char s \<Longrightarrow> trim_space s = s"
  by (simp add: trim_space_plain list_all_iff)

lemma order_fields:
  "field_by_name order_type ''Model'' =
     Some ([0], GField ''Model'' True [(''dynamo'', ''pk:CustomerID;sk:Status,CreatedDate'')] model_type)"
  "field_by_name order_type ''ID'' = Some ([0, 0], GField ''ID'' False [] TUUID)"
  "field_by_name order_type ''CustomerID'' = Some ([1], GField ''CustomerID'' False [] TString)"
  "field_by_name order_type ''Status'' = Some ([2], GField ''Status'' False [] TString)"
  "field_by_name order_type ''CreatedDate'' = Some ([3], GField ''CreatedDate'' False [] TString)"
  by (simp_all add: field_search order_type_def model_type_def)

lemma task_fields:
  "field_by_name task_type ''Model'' = Some ([0], GField ''Model'' True [] model_type)"
  "field_by_name task_type ''ID'' = Some ([0, 0], GField ''ID'' False [] TUUID)"
  "field_by_name task_type ''Notes'' = Some ([4], GField ''Notes'' False [(''dynamo'', ''compress'')] TString)"
  "field_by_name task_type ''Missing'' = None"
  by (simp_all add: field_search task_type_def model_type_def)

lemma order_tag: "''pk:CustomerID;sk:Status,CreatedDate'' =
    render_tag True [''CustomerID''] [''Status'', ''CreatedDate'']"
  by (simp add: render_tag_def render_clause_def)

section \<open>Properties\<close>

text \<open>
  C38: Parsing a tag written in the documented grammar gives back its field lists, whichever
  clause comes first and whichever clauses are left out.
\<close>

theorem parse_tags_reads_grammar:
  assumes "field_by_name t ''Model'' = Some (p, GField n e tg model_type)"
    and "list_all plain_name pks" and "list_all plain_name sks"
    and "tag_lookup tg ''dynamo'' = Some (render_tag pk_first pks sks)"
  shows "\<exists>mt. parse_tags t = Ok mt \<and> structName mt = type_name t \<and>
    pkFields mt = pks \<and> skFields mt = sks"
proof -
  from assms(1) have "struct_fields t \<noteq> None"
    by (auto simp: field_by_name_def split: option.splits)
  then show ?thesis
    using assms parse_rendered_clauses[OF assms(2,3,4)]
    by (auto simp: parse_tags_def)
qed

theorem parse_tags_reads_grammar_witness:
  "\<exists>mt. parse_tags order_type = Ok mt \<and> structName mt = ''Order'' \<and>
    pkFields mt = [''CustomerID''] \<and> skFields mt = [''Status'', ''CreatedDate'']"
proof -
  have "type_name order_type = ''Order''" by (simp add: order_type_def)
  then show ?thesis
    using parse_tags_reads_grammar[OF order_fields(1), of "[''CustomerID'']"
        "[''Status'', ''CreatedDate'']" True]
    by (simp add: tag_lookup_def order_tag plain_name_def plain_char_def)
qed

text \<open>
  Whatever the tag says, every field name the parser returns is non-empty and holds no
  separator.
\<close>

theorem parse_tags_field_tokens:
  assumes "parse_tags t = Ok mt"
  shows "list_all field_token (pkFields mt) \<and> list_all field_token (skFields mt)"
proof -
  have "list_all field_token (pkFields (parse_model_clauses mt0 f)) \<and>
      list_all field_token (skFields (parse_model_clauses mt0 f))"
    if "pkFields mt0 = []" "skFields mt0 = []" for mt0 f
    using that split_on_no_sep
    by (auto simp: parse_model_clauses_def parse_clauses_tokens split: option.splits)
  then show ?thesis
    using assms by (auto simp: parse_tags_def split: option.splits if_splits)
qed

theorem parse_tags_field_tokens_witness:
  "\<exists>mt. parse_tags order_type = Ok mt \<and> list_all field_token (pkFields mt)"
proof -
  obtain mt where "parse_tags order_type = Ok mt"
    by (simp add: parse_tags_def order_fields order_type_def)
      (simp add: order_fields[unfolded order_type_def])
  then show ?thesis using parse_tags_field_tokens by blast
qed

text \<open>
  C39: The cache is transparent: from a sound cache, and whatever sound changes other goroutines
  make between the miss and the store, the cached parser returns (or panics with) what a fresh
  parse does and leaves a sound cache.
\<close>

theorem parse_tags_cache_transparent:
  assumes "cache_sound c" and "\<And>d. cache_sound d \<Longrightarrow> cache_sound (between d)"
  shows "fst (parse_tags_cached between t c) = parse_tags t \<and>
    cache_sound (snd (parse_tags_cached between t c))"
  using assms(1) assms(2)[OF assms(1)]
  by (auto simp: parse_tags_cached_def cache_sound_def Let_def split: option.splits outcome.splits)

theorem parse_tags_cache_transparent_witness:
  "fst (parse_tags_cached (\<lambda>c. c) order_type fmempty) = parse_tags order_type"
  using parse_tags_cache_transparent[of fmempty "\<lambda>c. c" order_type] by (simp add: cache_sound_def)

end
