(* ===== verification/Aws_Interface.thy ===== *)
theory Aws_Interface
  imports Go_Reflect
begin

text \<open>
  What lies outside the repository, as parameters: the record \<open>lib\<close> holds the functions of
  the AWS SDK's \<open>attributevalue\<close> and \<open>expression\<close> packages, of \<open>google/uuid\<close>,
  \<open>encoding/json\<close> and \<open>compress/gzip\<close> that the code calls; the record
  \<open>client\<close> is \<open>dynamoAPI\<close> of \<open>client.go\<close>, one function per wrapped
  DynamoDB operation. A call changes the outside world, a value of the type parameter
  \<open>'w\<close>. Requests and replies are records of the fields the code sets and reads. Values
  built with the \<open>expression\<close> package are their syntax trees: \<open>Build\<close> either
  fails or yields the tree, and the rendering into placeholder strings with its name and value
  tables is not modelled.
\<close>

section \<open>Attribute values\<close>

datatype attr_val =
    AVS string | AVN string | AVB "byte list" | AVBOOL bool | AVNULL bool
  | AVL "attr_val list" | AVM "(string, attr_val) fmap"
  | AVSS "string list" | AVNS "string list" | AVBS "byte list list"

type_synonym item = "(string, attr_val) fmap"

text \<open>A \<open>map[string]any\<close>.\<close>

type_synonym any_map = "(string, go_any) fmap"

section \<open>Expressions\<close>

datatype cmp_op = CmpEq | CmpNe | CmpGt | CmpGe | CmpLt | CmpLe

datatype condition =
    Compare cmp_op string go_any
  | CondBeginsWith string string
  | CondContains string go_any
  | AttrExists string
  | AttrNotExists string
  | CondAnd condition condition

datatype key_condition =
    KeyEqual string go_any
  | KeyBeginsWith string string
  | KeyBetween string go_any go_any
  | KeyAnd key_condition key_condition

datatype update_action = SetAction string go_any | AddAction string go_any

text \<open>The parts given to \<open>expression.NewBuilder()\<close> with \<open>With...\<close>.\<close>

record expr_parts =
  ex_condition :: "condition option"
  ex_key :: "key_condition option"
  ex_filter :: "condition option"
  ex_update :: "update_action list option"

definition no_parts :: expr_parts where
  "no_parts = \<lparr>ex_condition = None, ex_key = None, ex_filter = None, ex_update = None\<rparr>"

section \<open>Library functions\<close>

record 'w lib =
  lib_uuid_string :: "uuid \<Rightarrow> string"
  lib_uuid_new :: "'w \<Rightarrow> uuid \<times> 'w"
  lib_time_string :: "int \<Rightarrow> string"
  lib_value_string :: "gtype \<Rightarrow> gval \<Rightarrow> string"
  lib_sleep :: "int \<Rightarrow> 'w \<Rightarrow> 'w"
  lib_marshal :: "heap \<Rightarrow> go_any \<Rightarrow> go_err + attr_val"
  lib_marshal_map :: "heap \<Rightarrow> go_any \<Rightarrow> go_err + item"
  lib_unmarshal_map :: "item \<Rightarrow> gtype \<Rightarrow> gval \<Rightarrow> gval \<times> go_err option"
  lib_json_marshal :: "heap \<Rightarrow> gtype \<Rightarrow> gval \<Rightarrow> go_err + byte list"
  lib_json_unmarshal :: "byte list \<Rightarrow> gtype \<Rightarrow> go_err + gval"
  lib_gzip_write :: "byte list \<Rightarrow> go_err + byte list"
  lib_gzip_open :: "byte list \<Rightarrow> go_err option"
  lib_gzip_read :: "byte list \<Rightarrow> go_err + byte list"
  lib_unmarshal_any :: "item \<Rightarrow> go_err + any_map"
  lib_marshal_any :: "any_map \<Rightarrow> go_err + item"
  lib_json_of_map :: "any_map \<Rightarrow> go_err + byte list"
  lib_map_of_json :: "byte list \<Rightarrow> go_err + any_map"
  lib_build_error :: "expr_parts \<Rightarrow> string option"

text \<open>\<open>Build()\<close>.\<close>

definition build_expr :: "'w lib \<Rightarrow> expr_parts \<Rightarrow> expr_parts outcome" where
  "build_expr L ps = (case lib_build_error L ps of None \<Rightarrow> Ok ps | Some m \<Rightarrow> Fail (OtherErr m))"

section \<open>Requests, replies and the client\<close>

record key_input =
  ki_table :: string
  ki_key :: item

record put_input =
  pi_table :: string
  pi_item :: item
  pi_condition :: "condition option"

record update_input =
  ui_table :: string
  ui_key :: item
  ui_update :: "update_action list option"
  ui_condition :: "condition option"
  ui_return_all_new :: bool

record query_input =
  qi_table :: string
  qi_index :: "string option"
  qi_key_condition :: "key_condition option"
  qi_filter :: "condition option"
  qi_limit :: "32 word option"
  qi_start :: item

record scan_input =
  si_table :: string
  si_filter :: "condition option"
  si_limit :: "32 word option"
  si_segment :: "32 word option"
  si_total :: "32 word option"
  si_start :: item

record statement_input =
  ti_statement :: string
  ti_params :: "attr_val list"
  ti_limit :: "32 word option"
  ti_consistent :: "bool option"
  ti_next :: "string option"

text \<open>A page of items with the \<open>LastEvaluatedKey\<close> (empty: nil), or the \<open>NextToken\<close>.\<close>

record page =
  pg_items :: "item list"
  pg_last :: item

record statement_page =
  sp_items :: "item list"
  sp_next :: "string option"

datatype write_request = PutReq item | DeleteReq item | EmptyReq

record batch_get_output =
  bg_responses :: "(string, item list) fmap"
  bg_unprocessed :: "(string, item list) fmap"

datatype transact_write_item =
    TxPut string item "condition option"
  | TxDelete string item
  | TxCheck string item "condition option"
  | TxEmpty

type_synonym ('i, 'o, 'w) api_call = "'i \<Rightarrow> 'w \<Rightarrow> (go_err + 'o) \<times> 'w"

record 'w client =
  GetItem :: "(key_input, item, 'w) api_call"
  PutItem :: "(put_input, unit, 'w) api_call"
  UpdateItem :: "(update_input, item, 'w) api_call"
  DeleteItem :: "(key_input, unit, 'w) api_call"
  QueryCall :: "(query_input, page, 'w) api_call"
  ScanCall :: "(scan_input, page, 'w) api_call"
  BatchGetItem :: "((string, item list) fmap, batch_get_output, 'w) api_call"
  BatchWriteItem :: "((string, write_request list) fmap, (string, write_request list) fmap, 'w) api_call"
  TransactGetItems :: "(key_input list, item list, 'w) api_call"
  TransactWriteItems :: "(transact_write_item list, unit, 'w) api_call"
  ExecuteStatement :: "(statement_input, statement_page, 'w) api_call"

section \<open>The state of a call\<close>

text \<open>The Go heap (the entities the caller points to) and the outside world.\<close>

record 'w st =
  mem :: heap
  world :: 'w

definition api :: "('i, 'o, 'w) api_call \<Rightarrow> 'i \<Rightarrow> ('w st, 'o) act" where
  "api f i s = (case f i (world s) of (r, w) \<Rightarrow> (of_result r, s\<lparr>world := w\<rparr>))"

text \<open>An effect on the world alone that returns a value.\<close>

definition draw :: "('w \<Rightarrow> 'a \<times> 'w) \<Rightarrow> 'w st \<Rightarrow> 'a \<times> 'w st" where
  "draw f s = (case f (world s) of (a, w) \<Rightarrow> (a, s\<lparr>world := w\<rparr>))"

lemma mem_api [simp]: "mem (snd (api f i s)) = mem s"
  by (simp add: api_def split: prod.splits)

lemma api_Ok: "api f i s = (Ok x, s') \<longleftrightarrow> (\<exists>w. f i (world s) = (Inr x, w) \<and> s' = s\<lparr>world := w\<rparr>)"
  by (auto simp: api_def split: prod.splits)

lemma mem_draw [simp]: "mem (snd (draw f s)) = mem s"
  by (simp add: draw_def split: prod.splits)

end
