(* ===== verification/Sample_Lib.thy ===== *)
theory Sample_Lib
  imports Tags Aws_Interface
begin

text \<open>
  Concrete stand-ins for the parameters, on which the witnesses evaluate the theorems: a library
  (decimal numbers, attribute maps with one entry per leaf field, an uncompressed gzip container,
  JSON for strings only), an in-memory DynamoDB table with the documented conditional writes, and
  entities of the example types. Only the witnesses use this theory's definitions.
\<close>

section \<open>A library\<close>

fun enc_val :: "gval \<Rightarrow> attr_val" where
  "enc_val (VStr s) = AVS s"
| "enc_val (VInt i) = AVN (int_string (sint i))"
| "enc_val (VBool b) = AVBOOL b"
| "enc_val (VTime t) = AVS (int_string t)"
| "enc_val (VUUID u) = AVN (nat_string (unat u))"
| "enc_val (VOther k) = AVN (nat_string k)"
| "enc_val _ = AVNULL True"

fun dec_val :: "gtype \<Rightarrow> attr_val \<Rightarrow> gval option" where
  "dec_val TString (AVS s) = Some (VStr s)"
| "dec_val TTime (AVS s) = Some (VTime (parse_int s))"
| "dec_val TInt (AVN s) = Some (VInt (word_of_int (parse_int s)))"
| "dec_val TUUID (AVN s) = Some (VUUID (word_of_nat (parse_nat s)))"
| "dec_val TBool (AVBOOL b) = Some (VBool b)"
| "dec_val _ _ = None"

fun leaves :: "nat list \<Rightarrow> nat \<Rightarrow> gfield list \<Rightarrow> (nat list \<times> gfield) list" where
  "leaves p i [] = []"
| "leaves p i (GField n e tg t # fs) =
     (if e then (case t of TStruct _ _ gs \<Rightarrow> leaves (p @ [i]) 0 gs | _ \<Rightarrow> [])
      else [(p @ [i], GField n e tg t)]) @ leaves p (Suc i) fs"

definition type_leaves :: "gtype \<Rightarrow> (nat list \<times> gfield) list" where
  "type_leaves t = leaves [] 0 (case struct_fields t of None \<Rightarrow> [] | Some fs \<Rightarrow> fs)"

fun marshal_leaves :: "gval \<Rightarrow> (nat list \<times> gfield) list \<Rightarrow> item" where
  "marshal_leaves v [] = fmempty"
| "marshal_leaves v ((p, f) # ls) =
     (case get_at v p of
        None \<Rightarrow> marshal_leaves v ls
      | Some x \<Rightarrow> fmupd (f_name f) (enc_val x) (marshal_leaves v ls))"

fun unmarshal_leaves :: "item \<Rightarrow> (nat list \<times> gfield) list \<Rightarrow> gval \<Rightarrow> gval" where
  "unmarshal_leaves av [] v = v"
| "unmarshal_leaves av ((p, f) # ls) v =
     unmarshal_leaves av ls (case Option.bind (fmlookup av (f_name f)) (dec_val (f_type f)) of
       None \<Rightarrow> v
     | Some x \<Rightarrow> put_at v p x)"

fun sample_marshal_map :: "heap \<Rightarrow> go_any \<Rightarrow> go_err + item" where
  "sample_marshal_map h (Some (TPtr t, VPtr (Some a))) = Inr (marshal_leaves (h a) (type_leaves t))"
| "sample_marshal_map h (Some (t, v)) = Inr (marshal_leaves v (type_leaves t))"
| "sample_marshal_map h None = Inr fmempty"

fun sample_json :: "gtype \<Rightarrow> gval \<Rightarrow> go_err + byte list" where
  "sample_json TString (VStr s) = Inr (map (\<lambda>c. word_of_nat (of_char c)) s)"
| "sample_json _ _ = Inl (OtherErr ''json: unsupported type'')"

fun sample_unjson :: "byte list \<Rightarrow> gtype \<Rightarrow> go_err + gval" where
  "sample_unjson bs TString = Inr (VStr (map (\<lambda>b. char_of (unat b)) bs))"
| "sample_unjson bs _ = Inl (OtherErr ''json: unsupported type'')"

fun sample_gunzip :: "byte list \<Rightarrow> go_err + byte list" where
  "sample_gunzip (a # b # bs) =
     (if a = 0x1f \<and> b = 0x8b then Inr bs else Inl (OtherErr ''gzip: invalid header''))"
| "sample_gunzip _ = Inl (OtherErr ''EOF'')"

text \<open>
  Cursors: string attributes as they are, and the JSON of the one key that the witnesses page
  through, \<open>{"PK":"1"}\<close>.
\<close>

fun str_any :: "attr_val \<Rightarrow> go_any" where
  "str_any (AVS s) = Some (TString, VStr s)"
| "str_any a = None"

fun any_str :: "go_any \<Rightarrow> attr_val" where
  "any_str (Some (TString, VStr s)) = AVS s"
| "any_str x = AVNULL True"

definition sample_key :: item where
  "sample_key = fmupd ''PK'' (AVS ''1'') fmempty"

definition sample_key_json :: "byte list" where
  "sample_key_json = map (\<lambda>c. word_of_nat (of_char c)) ''{\"PK\":\"1\"}''"

record sworld =
  sw_table :: "(string \<times> string, item) fmap"
  sw_pages :: "item list list"
  sw_time :: int
  sw_fresh :: uuid
  sw_calls :: nat

definition sample_lib :: "sworld lib" where
  "sample_lib =
     \<lparr>lib_uuid_string = (\<lambda>u. nat_string (unat u)),
      lib_uuid_new = (\<lambda>w. (sw_fresh w, w\<lparr>sw_fresh := sw_fresh w + 1\<rparr>)),
      lib_time_string = int_string,
      lib_value_string = (\<lambda>t v. ''?''),
      lib_sleep = (\<lambda>d w. w\<lparr>sw_time := sw_time w + d\<rparr>),
      lib_marshal = (\<lambda>h x. case x of None \<Rightarrow> Inr (AVNULL True) | Some (t, v) \<Rightarrow> Inr (enc_val v)),
      lib_marshal_map = sample_marshal_map,
      lib_unmarshal_map = (\<lambda>av t v. (unmarshal_leaves av (type_leaves t) v, None)),
      lib_json_marshal = (\<lambda>h. sample_json),
      lib_json_unmarshal = sample_unjson,
      lib_gzip_write = (\<lambda>d. Inr (0x1f # 0x8b # d)),
      lib_gzip_open = (\<lambda>z. case sample_gunzip z of Inl e \<Rightarrow> Some e | Inr d \<Rightarrow> None),
      lib_gzip_read = sample_gunzip,
      lib_unmarshal_any = (\<lambda>i. Inr (fmmap str_any i)),
      lib_marshal_any = (\<lambda>m. Inr (fmmap any_str m)),
      lib_json_of_map = (\<lambda>m. if m = fmmap str_any sample_key then Inr sample_key_json
        else Inl (OtherErr ''json: unsupported value'')),
      lib_map_of_json = (\<lambda>b. if b = sample_key_json then Inr (fmmap str_any sample_key)
        else Inl (OtherErr ''invalid character'')),
      lib_build_error = (\<lambda>ps. None)\<rparr>"

section \<open>An in-memory table\<close>

fun sample_cond :: "condition \<Rightarrow> item option \<Rightarrow> bool" where
  "sample_cond (AttrNotExists n) it = (Option.bind it (\<lambda>i. fmlookup i n) = None)"
| "sample_cond (AttrExists n) it = (Option.bind it (\<lambda>i. fmlookup i n) \<noteq> None)"
| "sample_cond (Compare CmpEq n (Some (t, v))) it = (Option.bind it (\<lambda>i. fmlookup i n) = Some (enc_val v))"
| "sample_cond (CondAnd a b) it = (sample_cond a it \<and> sample_cond b it)"
| "sample_cond _ it = False"

fun text_of :: "attr_val option \<Rightarrow> string" where
  "text_of (Some (AVS s)) = s"
| "text_of _ = []"

definition key_of :: "item \<Rightarrow> string \<times> string" where
  "key_of i = (text_of (fmlookup i ''PK''), text_of (fmlookup i ''SK''))"

definition opt_cond :: "condition option \<Rightarrow> item option \<Rightarrow> bool" where
  "opt_cond c it = (case c of None \<Rightarrow> True | Some c \<Rightarrow> sample_cond c it)"

definition sample_put :: "(put_input, unit, sworld) api_call" where
  "sample_put i w =
     (if opt_cond (pi_condition i) (fmlookup (sw_table w) (key_of (pi_item i)))
      then (Inr (), w\<lparr>sw_table := fmupd (key_of (pi_item i)) (pi_item i) (sw_table w)\<rparr>)
      else (Inl (Wrapped ''operation error DynamoDB: PutItem''
        (CondCheckFailed ''The conditional request failed'')), w))"

definition sample_get :: "(key_input, item, sworld) api_call" where
  "sample_get i w =
     (Inr (case fmlookup (sw_table w) (key_of (ki_key i)) of None \<Rightarrow> fmempty | Some it \<Rightarrow> it), w)"

definition sample_delete :: "(key_input, unit, sworld) api_call" where
  "sample_delete i w = (Inr (), w\<lparr>sw_table := fmdrop (key_of (ki_key i)) (sw_table w)\<rparr>)"

text \<open>Numbers add; a missing attribute counts as 0.\<close>

fun apply_action :: "update_action \<Rightarrow> item \<Rightarrow> item" where
  "apply_action (SetAction n (Some (t, v))) it = fmupd n (enc_val v) it"
| "apply_action (SetAction n None) it = fmupd n (AVNULL True) it"
| "apply_action (AddAction n (Some (t, VInt v))) it =
     (case fmlookup it n of
        Some (AVN s) \<Rightarrow> fmupd n (AVN (int_string (parse_int s + sint v))) it
      | _ \<Rightarrow> fmupd n (AVN (int_string (sint v))) it)"
| "apply_action (AddAction n _) it = it"

definition sample_update :: "(update_input, item, sworld) api_call" where
  "sample_update i w =
     (let k = key_of (ui_key i); cur = fmlookup (sw_table w) k in
      if opt_cond (ui_condition i) cur
      then (let it = fold apply_action (case ui_update i of None \<Rightarrow> [] | Some as \<Rightarrow> as)
                  (case cur of None \<Rightarrow> ui_key i | Some it \<Rightarrow> it)
            in (Inr it, w\<lparr>sw_table := fmupd k it (sw_table w)\<rparr>))
      else (Inl (CondCheckFailed ''The conditional request failed''), w))"

text \<open>The pages of a query or scan are given by the world; a start key holds the page number.\<close>

definition page_at :: "item \<Rightarrow> sworld \<Rightarrow> page" where
  "page_at start w =
     (let n = parse_nat (text_of (fmlookup start ''PK'')) in
      \<lparr>pg_items = (if n < length (sw_pages w) then sw_pages w ! n else []),
       pg_last = (if Suc n < length (sw_pages w) then fmupd ''PK'' (AVS (nat_string (Suc n))) fmempty
                  else fmempty)\<rparr>)"

definition sample_client :: "sworld client" where
  "sample_client =
     \<lparr>GetItem = sample_get, PutItem = sample_put, UpdateItem = sample_update,
      DeleteItem = sample_delete,
      QueryCall = (\<lambda>i w. (Inr (page_at (qi_start i) w), w\<lparr>sw_calls := Suc (sw_calls w)\<rparr>)),
      ScanCall = (\<lambda>i w. (Inr (page_at (si_start i) w), w\<lparr>sw_calls := Suc (sw_calls w)\<rparr>)),
      BatchGetItem = (\<lambda>r w. (Inr
        \<lparr>bg_responses = fmmap (List.map_filter (\<lambda>k. fmlookup (sw_table w) (key_of k))) r,
         bg_unprocessed = fmempty\<rparr>, w\<lparr>sw_calls := Suc (sw_calls w)\<rparr>)),
      BatchWriteItem = (\<lambda>r w. (Inr fmempty, w\<lparr>sw_calls := Suc (sw_calls w)\<rparr>)),
      TransactGetItems = (\<lambda>ks w. (Inr (map (\<lambda>k.
          case fmlookup (sw_table w) (key_of (ki_key k)) of None \<Rightarrow> fmempty | Some it \<Rightarrow> it) ks), w)),
      TransactWriteItems = (\<lambda>is w. (Inr (), w\<lparr>sw_calls := Suc (sw_calls w)\<rparr>)),
      ExecuteStatement = (\<lambda>i w. (Inr \<lparr>sp_items = concat (sw_pages w), sp_next = None\<rparr>, w))\<rparr>"

definition empty_world :: sworld where
  "empty_world = \<lparr>sw_table = fmempty, sw_pages = [], sw_time = 1000, sw_fresh = 7, sw_calls = 0\<rparr>"

section \<open>Entities\<close>

definition zero_model :: model where
  "zero_model = \<lparr>m_ID = 0, m_Type = [], m_CreatedAt = 0, m_CreatedBy = [], m_UpdatedAt = 0,
     m_UpdatedBy = [], m_Version = 0\<rparr>"

definition task_value :: "model \<Rightarrow> string \<Rightarrow> gval" where
  "task_value m notes =
     VStruct [val_of_model m, VStr ''roadmap'', VStr ''open'', VStr ''Write README'', VStr notes]"

definition order_value :: "uuid \<Rightarrow> string \<Rightarrow> gval" where
  "order_value i status =
     VStruct [val_of_model (zero_model\<lparr>m_ID := i\<rparr>), VStr ''c1'', VStr status, VStr ''2026-07-28'']"

lemma sample_values_typed [simp]:
  "has_type (task_value m notes) task_type" "has_type (order_value i status) order_type"
  using has_type_model by (auto simp: task_value_def order_value_def task_type_def order_type_def)

lemma parse_order:
  "parse_tags order_type = Ok \<lparr>structName = ''Order'', pkFields = [''CustomerID''],
     skFields = [''Status'', ''CreatedDate''], compressFields = []\<rparr>"
proof -
  have "parse_model_clauses \<lparr>structName = ''Order'', pkFields = [], skFields = [], compressFields = []\<rparr>
      (GField ''Model'' True [(''dynamo'', ''pk:CustomerID;sk:Status,CreatedDate'')] model_type) =
    \<lparr>structName = ''Order'', pkFields = [''CustomerID''], skFields = [''Status'', ''CreatedDate''],
     compressFields = []\<rparr>"
    using parse_rendered_clauses[of "[''CustomerID'']" "[''Status'', ''CreatedDate'']" _ True]
    by (simp add: plain_name_def plain_char_def tag_lookup_def order_tag)
  moreover have "type_name order_type = ''Order''" "parse_compress_fields order_type = []"
    by (simp_all add: order_type_def parse_compress_fields_def model_type_def tag_lookup_def)
  ultimately show ?thesis by (simp add: parse_tags_found[OF order_fields(1)])
qed

lemma parse_task:
  "parse_tags task_type = Ok \<lparr>structName = ''Task'', pkFields = [], skFields = [],
     compressFields = [''Notes'']\<rparr>"
proof -
  have "trim_space ''compress'' = ''compress''" by (simp add: trim_plain_eq plain_char_def)
  then have "type_name task_type = ''Task''" "parse_compress_fields task_type = [''Notes'']"
    by (simp_all add: task_type_def parse_compress_fields_def model_type_def tag_lookup_def)
  then show ?thesis
    by (simp add: parse_tags_found[OF task_fields(1)] parse_model_clauses_def tag_lookup_def)
qed

lemma task_model [simp]:
  "model_path task_type = Some [0]" "model_at task_type (task_value m notes) = Some m"
  by (simp_all add: model_path_def task_fields model_at_def task_value_def)

lemma sample_type_names [simp]: "type_name task_type = ''Task''" "type_name order_type = ''Order''"
  by (simp_all add: task_type_def order_type_def)

lemma sample_fields:
  "value_field task_type (task_value m notes) ''ID'' = Some (TUUID, VUUID (m_ID m))"
  "value_field task_type (task_value m notes) ''Notes'' = Some (TString, VStr notes)"
  "value_field order_type (order_value i status) ''ID'' = Some (TUUID, VUUID i)"
  "value_field order_type (order_value i status) ''CustomerID'' = Some (TString, VStr ''c1'')"
  "value_field order_type (order_value i status) ''Status'' = Some (TString, VStr status)"
  "value_field order_type (order_value i status) ''CreatedDate'' = Some (TString, VStr ''2026-07-28'')"
  by (simp_all add: value_field_def task_fields order_fields task_value_def order_value_def
      val_of_model_def zero_model_def)

lemma sample_exported [simp]:
  "exported ''ID''" "exported ''CustomerID''" "exported ''Status''" "exported ''CreatedDate''"
  "exported ''Notes''"
  by (simp_all add: exported_def)

lemma sample_uuid_strings:
  "inj (lib_uuid_string sample_lib)" "CHR ''#'' \<notin> set (lib_uuid_string sample_lib u)"
  by (auto simp: sample_lib_def nat_string_no_hash inj_def word_unat_eq_iff
      dest!: injD[OF inj_nat_string])

lemma sample_lib_fields [simp]:
  "lib_uuid_string sample_lib u = nat_string (unat u)"
  "lib_build_error sample_lib ps = None"
  "lib_gzip_write sample_lib d = Inr (0x1f # 0x8b # d)"
  "lib_json_marshal sample_lib h = sample_json"
  "lib_json_unmarshal sample_lib = sample_unjson"
  "lib_marshal_map sample_lib = sample_marshal_map"
  by (simp_all add: sample_lib_def)

end
