(* ===== verification/Client_DB.thy ===== *)
theory Client_DB
  imports Aws_Interface
begin

text \<open>
  \<open>client.go\<close> and \<open>options.go\<close>: the \<open>DB\<close> handle and its functional options.
  The clock reads the world (two readings may differ); the actor is a function of the caller's
  context, of the type parameter \<open>'c\<close>.
\<close>

record ('c, 'w) db =
  db_client :: "'w client"
  db_table :: string
  db_gsi1Name :: string
  db_gsi1PKAttr :: string
  db_clock :: "'w \<Rightarrow> int \<times> 'w"
  db_actor :: "'c \<Rightarrow> string"

type_synonym ('c, 'w) db_option = "('c, 'w) db \<Rightarrow> ('c, 'w) db"

definition WithGSI1Name :: "string \<Rightarrow> ('c, 'w) db_option" where
  "WithGSI1Name name d = d\<lparr>db_gsi1Name := name\<rparr>"

definition WithGSI1PKAttr :: "string \<Rightarrow> ('c, 'w) db_option" where
  "WithGSI1PKAttr name d = d\<lparr>db_gsi1PKAttr := name\<rparr>"

definition WithClock :: "('w \<Rightarrow> int \<times> 'w) \<Rightarrow> ('c, 'w) db_option" where
  "WithClock clock d = d\<lparr>db_clock := clock\<rparr>"

definition WithActor :: "('c \<Rightarrow> string) \<Rightarrow> ('c, 'w) db_option" where
  "WithActor actor d = d\<lparr>db_actor := actor\<rparr>"

text \<open>\<open>New\<close>; \<open>now\<close> is \<open>time.Now\<close>.\<close>

definition New ::
    "('w \<Rightarrow> int \<times> 'w) \<Rightarrow> 'w client \<Rightarrow> string \<Rightarrow> ('c, 'w) db_option list \<Rightarrow> ('c, 'w) db" where
  "New now client table opts =
     fold (\<lambda>opt d. opt d) opts
       \<lparr>db_client = client, db_table = table, db_gsi1Name = ''GSI1'',
        db_gsi1PKAttr = ''GSI1PK'', db_clock = now, db_actor = (\<lambda>_. [])\<rparr>"

text \<open>The options a caller can build with the exported constructors.\<close>

inductive is_option :: "('c, 'w) db_option \<Rightarrow> bool" where
  "is_option (WithGSI1Name n)"
| "is_option (WithGSI1PKAttr n)"
| "is_option (WithClock c)"
| "is_option (WithActor a)"

lemma is_option_keeps_client:
  "is_option opt \<Longrightarrow> db_client (opt d) = db_client d \<and> db_table (opt d) = db_table d"
  by (induction rule: is_option.induct)
    (simp_all add: WithGSI1Name_def WithGSI1PKAttr_def WithClock_def WithActor_def)

lemma fold_options_keep_client:
  "list_all is_option opts \<Longrightarrow>
   db_client (fold (\<lambda>opt d. opt d) opts d) = db_client d \<and>
   db_table (fold (\<lambda>opt d. opt d) opts d) = db_table d"
  by (induction opts arbitrary: d) (auto simp: is_option_keeps_client)

text \<open>
  No combination of options changes the client or the table a \<open>DB\<close> was built with, and
  an index name given last is the one that is used.
\<close>

theorem New_options:
  assumes "list_all is_option opts"
  shows "db_client (New now c tbl opts) = c \<and> db_table (New now c tbl opts) = tbl \<and>
    db_gsi1Name (New now c tbl (opts @ [WithGSI1Name n])) = n"
  using fold_options_keep_client[OF assms] by (simp add: New_def WithGSI1Name_def)

theorem New_options_witness:
  "\<forall>(now :: nat \<Rightarrow> int \<times> nat) c.
     db_table (New now c ''t'' [WithGSI1Name ''A'', WithActor (\<lambda>_ :: unit. ''me'')]) = ''t'' \<and>
     db_gsi1Name (New now c ''t'' [WithActor (\<lambda>_ :: unit. ''me''), WithGSI1Name ''B'']) = ''B''"
proof (intro allI)
  fix now :: "nat \<Rightarrow> int \<times> nat" and c
  have o1: "list_all is_option [WithGSI1Name ''A'', WithActor (\<lambda>_ :: unit. ''me'')]"
    and o2: "list_all is_option [WithActor (\<lambda>_ :: unit. ''me'')]"
    by (simp_all add: is_option.intros)
  show "db_table (New now c ''t'' [WithGSI1Name ''A'', WithActor (\<lambda>_ :: unit. ''me'')]) = ''t'' \<and>
     db_gsi1Name (New now c ''t'' [WithActor (\<lambda>_ :: unit. ''me''), WithGSI1Name ''B'']) = ''B''"
    using New_options[OF o1, of now c "''t''"] New_options[OF o2, of now c "''t''" "''B''"] by simp
qed

end
