(* ===== verification/Sample_DB.thy ===== *)
theory Sample_DB
  imports Sample_Lib Client_DB
begin

text \<open>The handle the witnesses use: the in-memory client, with a counting clock.\<close>

definition sample_db :: "(unit, sworld) db" where
  "sample_db = New (\<lambda>w. (sw_time w, w\<lparr>sw_time := sw_time w + 1\<rparr>)) sample_client ''t'' []"

lemma sample_db_fields [simp]:
  "db_client sample_db = sample_client" "db_table sample_db = ''t''"
  "db_gsi1Name sample_db = ''GSI1''" "db_gsi1PKAttr sample_db = ''GSI1PK''"
  "db_clock sample_db w = (sw_time w, w\<lparr>sw_time := sw_time w + 1\<rparr>)" "db_actor sample_db u = []"
  by (simp_all add: sample_db_def New_def)

lemma sample_new_uuid [simp]:
  "lib_uuid_new sample_lib w = (sw_fresh w, w\<lparr>sw_fresh := sw_fresh w + 1\<rparr>)"
  by (simp add: sample_lib_def)

lemma sample_client_calls [simp]:
  "PutItem sample_client = sample_put" "GetItem sample_client = sample_get"
  "DeleteItem sample_client = sample_delete" "UpdateItem sample_client = sample_update"
  by (simp_all add: sample_client_def)

end
