(* ===== verification/Keys.thy ===== *)
theory Keys
  imports Sample_Lib
begin

text \<open>
  \<open>keys.go\<close>: the partition and sort keys of an entity, from its tags and field values.
  \<open>sprint\<close> is \<open>fmt.Sprint\<close> on the values keys are made of; how a UUID, a time and
  the types the code does not handle itself print is a parameter.
\<close>

section \<open>Printing values\<close>

fun sprint :: "'w lib \<Rightarrow> gtype \<times> gval \<Rightarrow> string" where
  "sprint L (TString, VStr s) = s"
| "sprint L (TInt, VInt i) = int_string (sint i)"
| "sprint L (TBool, VBool b) = (if b then ''true'' else ''false'')"
| "sprint L (TUUID, VUUID u) = lib_uuid_string L u"
| "sprint L (TTime, VTime t) = lib_time_string L t"
| "sprint L (t, v) = lib_value_string L t v"

section \<open>The key builders\<close>

text \<open>\<open>structValueOf\<close>: follows pointers to the struct; the loop is on the static type.\<close>

fun deref_struct :: "heap \<Rightarrow> gtype \<Rightarrow> gval \<Rightarrow> (gtype \<times> gval) outcome" where
  "deref_struct h (TPtr t) v =
     (case v of
        VPtr (Some a) \<Rightarrow> deref_struct h t (h a)
      | _ \<Rightarrow> Panic ''godynamo: nil pointer passed to key builder'')"
| "deref_struct h (TStruct k n fs) v = Ok (TStruct k n fs, v)"
| "deref_struct h t v = Panic ''godynamo: value must be a struct or pointer to struct''"

definition structValueOf :: "heap \<Rightarrow> go_any \<Rightarrow> (gtype \<times> gval) outcome" where
  "structValueOf h x =
     (case x of
        None \<Rightarrow> Panic ''godynamo: value must be a struct or pointer to struct''
      | Some (t, v) \<Rightarrow> deref_struct h t v)"

text \<open>
  \<open>buildKey\<close>: the loop over the field names collects the printed values; \<open>Interface()\<close>
  panics on an unexported field.
\<close>

fun key_parts :: "'w lib \<Rightarrow> string \<Rightarrow> gtype \<times> gval \<Rightarrow> string list \<Rightarrow> string list outcome" where
  "key_parts L sn sv [] = Ok []"
| "key_parts L sn sv (name # names) =
     (case value_field (fst sv) (snd sv) name of
        None \<Rightarrow> Panic (''godynamo: field '' @ name @ '' not found on struct '' @ sn)
      | Some fv \<Rightarrow>
          (if \<not> exported name
           then Panic ''reflect.Value.Interface: cannot return value obtained from unexported field or method''
           else map_ok (\<lambda>ps. sprint L fv # ps) (key_parts L sn sv names)))"

definition buildKey :: "'w lib \<Rightarrow> string \<Rightarrow> gtype \<times> gval \<Rightarrow> string list \<Rightarrow> string outcome" where
  "buildKey L sn sv fns = map_ok (\<lambda>ps. join_with ''#'' (sn # ps)) (key_parts L sn sv fns)"

text \<open>The field list of the key: the clause's, or the defaults.\<close>

definition pk_names :: "model_tags \<Rightarrow> string list" where
  "pk_names mt = (if pkFields mt = [] then [''ID''] else pkFields mt)"

definition sk_names :: "model_tags \<Rightarrow> string list" where
  "sk_names mt =
     (if skFields mt = [] then [''ID'']
      else if last (skFields mt) \<noteq> ''ID'' then skFields mt @ [''ID'']
      else skFields mt)"

definition PK :: "'w lib \<Rightarrow> heap \<Rightarrow> go_any \<Rightarrow> string outcome" where
  "PK L h x = and_then (structValueOf h x) (\<lambda>sv.
     and_then (parse_tags (fst sv)) (\<lambda>mt. buildKey L (structName mt) sv (pk_names mt)))"

definition SK :: "'w lib \<Rightarrow> heap \<Rightarrow> go_any \<Rightarrow> string outcome" where
  "SK L h x = and_then (structValueOf h x) (\<lambda>sv.
     and_then (parse_tags (fst sv)) (\<lambda>mt. buildKey L (structName mt) sv (sk_names mt)))"

definition Keys :: "'w lib \<Rightarrow> heap \<Rightarrow> go_any \<Rightarrow> (string \<times> string) outcome" where
  "Keys L h x = and_then (PK L h x) (\<lambda>pk. map_ok (\<lambda>sk. (pk, sk)) (SK L h x))"

section \<open>Lemmas\<close>

lemma parse_tags_struct: "parse_tags t = Ok mt \<Longrightarrow> \<exists>k n fs. t = TStruct k n fs"
  by (cases t) (auto simp: parse_tags_def)

lemma parse_tags_name: "parse_tags t = Ok mt \<Longrightarrow> structName mt = type_name t"
proof -
  have "structName (parse_clause c m) = structName m" for c m
    by (simp add: parse_clause_def Let_def split_beta)
  then have "structName (fold parse_clause cs m) = structName m" for cs m
    by (induction cs arbitrary: m) auto
  then show "parse_tags t = Ok mt \<Longrightarrow> structName mt = type_name t"
    by (auto simp: parse_tags_def parse_model_clauses_def split: option.splits if_splits)
qed

lemma parse_tags_model_path: "parse_tags t = Ok mt \<Longrightarrow> \<exists>p. model_path t = Some p"
  by (auto simp: parse_tags_def model_path_def split: option.splits if_splits)

lemma structValueOf_simps [simp]:
  "parse_tags t = Ok mt \<Longrightarrow> structValueOf h (ptr t a) = Ok (t, h a)"
  "parse_tags t = Ok mt \<Longrightarrow> structValueOf h (Some (t, v)) = Ok (t, v)"
  by (auto simp: structValueOf_def dest!: parse_tags_struct)

lemma key_of_pointer:
  assumes "parse_tags t = Ok mt"
  shows "PK L h (ptr t a) = buildKey L (type_name t) (t, h a) (pk_names mt)"
    and "SK L h (ptr t a) = buildKey L (type_name t) (t, h a) (sk_names mt)"
    and "PK L h (Some (t, v)) = buildKey L (type_name t) (t, v) (pk_names mt)"
    and "SK L h (Some (t, v)) = buildKey L (type_name t) (t, v) (sk_names mt)"
  using assms parse_tags_name[OF assms] by (simp_all add: PK_def SK_def)

lemma key_of_struct_needs_tags:
  assumes "PK L h (ptr t a) = Ok k \<or> SK L h (ptr t a) = Ok k"
    and "struct_fields t \<noteq> None"
  shows "\<exists>mt. parse_tags t = Ok mt"
  using assms by (cases t) (auto simp: PK_def SK_def structValueOf_def)

lemma key_parts_eq:
  "key_parts L sn (t, v) names = Ok ps \<longleftrightarrow>
   list_all2 (\<lambda>n p. exported n \<and> map_option (sprint L) (value_field t v n) = Some p) names ps"
  by (induction names arbitrary: ps) (auto split: option.splits simp: list_all2_Cons1)

lemma buildKey_eq:
  "buildKey L sn (t, v) names = Ok k \<longleftrightarrow>
   (\<exists>ps. key_parts L sn (t, v) names = Ok ps \<and> k = join_with ''#'' (sn # ps))"
  by (auto simp: buildKey_def)

text \<open>No panic: every name resolves to an exported field of a well-typed value.\<close>

lemma key_parts_total:
  assumes "has_type v t" and "list_all (\<lambda>n. exported n \<and> field_by_name t n \<noteq> None) names"
  shows "\<exists>ps. key_parts L sn (t, v) names = Ok ps"
  using assms(2)
proof (induction names)
  case Nil
  then show ?case by simp
next
  case (Cons n names)
  then obtain p f where "field_by_name t n = Some (p, f)" by auto
  with value_field_typed[OF assms(1)] obtain x where "value_field t v n = Some (f_type f, x)" by blast
  with Cons show ?case by auto
qed

text \<open>Parts without \<open>#\<close> can be read back from the key.\<close>

lemma key_determines_parts:
  assumes "join_with ''#'' (sn # ps) = join_with ''#'' (sn' # qs)"
    and "\<forall>x\<in>set (sn # ps). CHR ''#'' \<notin> set x" and "\<forall>x\<in>set (sn' # qs). CHR ''#'' \<notin> set x"
  shows "sn = sn' \<and> ps = qs"
  using split_on_join[of "sn # ps" "CHR ''#''"] split_on_join[of "sn' # qs" "CHR ''#''"] assms
  by (metis list.distinct(1) list.inject)

lemma sk_names_last: "sk_names mt \<noteq> [] \<and> last (sk_names mt) = ''ID''"
  by (simp add: sk_names_def)

lemma SK_ends_with_ID:
  assumes "parse_tags t = Ok mt" and "SK L h (ptr t a) = Ok k"
  shows "\<exists>fv pre. value_field t (h a) ''ID'' = Some fv \<and> k = pre @ CHR ''#'' # sprint L fv"
proof -
  obtain ps where ps: "key_parts L (type_name t) (t, h a) (sk_names mt) = Ok ps"
    and k: "k = join_with ''#'' (type_name t # ps)"
    using assms by (auto simp: key_of_pointer buildKey_eq)
  have "ps \<noteq> [] \<and> map_option (sprint L) (value_field t (h a) ''ID'') = Some (last ps)"
    using list_all2_last[OF ps[unfolded key_parts_eq]] sk_names_last by force
  moreover from this have "k = join_with ''#'' (type_name t # butlast ps) @ CHR ''#'' # last ps"
    using join_with_snoc[of "type_name t # butlast ps" "''#''" "last ps"] k by simp
  ultimately show ?thesis by auto
qed

section \<open>Properties\<close>

text \<open>
  C34: Sort keys keep entities apart: whatever the types, the clauses and the other field values
  are, two entities with the same sort key have the same ID. (The ID is the last component and
  its text, a canonical UUID, holds no separator.)
\<close>

theorem SK_determines_ID:
  assumes "parse_tags t = Ok mt" and "parse_tags t' = Ok mt'"
    and "SK L h (ptr t a) = Ok k" and "SK L h' (ptr t' a') = Ok k"
    and "value_field t (h a) ''ID'' = Some (TUUID, VUUID u)"
    and "value_field t' (h' a') ''ID'' = Some (TUUID, VUUID u')"
    and "inj (lib_uuid_string L)" and "\<And>u. CHR ''#'' \<notin> set (lib_uuid_string L u)"
  shows "u = u'"
proof -
  obtain pre where "k = pre @ CHR ''#'' # lib_uuid_string L u"
    using SK_ends_with_ID[OF assms(1,3)] assms(5) by auto
  moreover obtain pre' where "k = pre' @ CHR ''#'' # lib_uuid_string L u'"
    using SK_ends_with_ID[OF assms(2,4)] assms(6) by auto
  ultimately have "lib_uuid_string L u = lib_uuid_string L u'"
    using last_component_eq assms(8) by metis
  then show ?thesis using assms(7) by (simp add: inj_eq)
qed

lemma sample_order_keys:
  "PK sample_lib (\<lambda>_. order_value 5 ''open'') (ptr order_type a) = Ok ''Order#c1''"
  "SK sample_lib (\<lambda>_. order_value 5 ''open'') (ptr order_type a) = Ok ''Order#open#2026-07-28#5''"
  by (simp_all add: key_of_pointer[OF parse_order] buildKey_def pk_names_def sk_names_def
      sample_fields nat_string.simps)

theorem SK_determines_ID_witness:
  "\<exists>k. SK sample_lib (\<lambda>_. order_value 5 ''open'') (ptr order_type 0) = Ok k \<and>
    SK sample_lib (\<lambda>_. order_value 5 ''open'') (ptr order_type 1) = Ok k \<and> (5 :: uuid) = 5"
  using SK_determines_ID[OF parse_order parse_order sample_order_keys(2) sample_order_keys(2)
      sample_fields(3) sample_fields(3) sample_uuid_strings]
    sample_order_keys(2) by blast

text \<open>
  C35: Partition keys are injective up to the separator: when neither the type names nor the
  printed field values hold a \<open>#\<close>, two entities with the same partition key have the same
  type name and the same printed key fields, in order.
\<close>

theorem PK_determines_fields:
  assumes "parse_tags t = Ok mt" and "parse_tags t' = Ok mt'"
    and "PK L h (ptr t a) = Ok k" and "PK L h' (ptr t' a') = Ok k"
    and "key_parts L (type_name t) (t, h a) (pk_names mt) = Ok ps"
    and "key_parts L (type_name t') (t', h' a') (pk_names mt') = Ok qs"
    and "\<forall>x\<in>set (type_name t # ps). CHR ''#'' \<notin> set x"
    and "\<forall>x\<in>set (type_name t' # qs). CHR ''#'' \<notin> set x"
  shows "type_name t = type_name t' \<and> ps = qs"
proof -
  have "k = join_with ''#'' (type_name t # ps)" and "k = join_with ''#'' (type_name t' # qs)"
    using assms(3-6) by (auto simp: key_of_pointer[OF assms(1)] key_of_pointer[OF assms(2)] buildKey_eq)
  then show ?thesis using key_determines_parts[OF _ assms(7,8)] by simp
qed

theorem PK_determines_fields_witness:
  "PK sample_lib (\<lambda>_. order_value 5 ''open'') (ptr order_type 0) = Ok ''Order#c1'' \<and>
   type_name order_type = type_name order_type \<and> [''c1''] = [''c1'']"
proof -
  have parts: "key_parts sample_lib (type_name order_type) (order_type, order_value 5 ''open'')
      (pk_names \<lparr>structName = ''Order'', pkFields = [''CustomerID''],
        skFields = [''Status'', ''CreatedDate''], compressFields = []\<rparr>) = Ok [''c1'']"
    by (simp add: pk_names_def sample_fields)
  have plain: "\<forall>x\<in>set (type_name order_type # [''c1'']). CHR ''#'' \<notin> set x" by simp
  show ?thesis
    using PK_determines_fields[OF parse_order parse_order sample_order_keys(1) sample_order_keys(1)
        parts parts plain plain] sample_order_keys(1)[of 0] by blast
qed

text \<open>
  Without a clause, both keys are the type's name and the ID.
\<close>

theorem default_keys:
  assumes "parse_tags t = Ok mt" and "pkFields mt = []" and "skFields mt = []"
    and "value_field t (h a) ''ID'' = Some (TUUID, VUUID u)"
  shows "Keys L h (ptr t a) =
    Ok (type_name t @ ''#'' @ lib_uuid_string L u, type_name t @ ''#'' @ lib_uuid_string L u)"
  using assms
  by (simp add: Keys_def key_of_pointer buildKey_def pk_names_def sk_names_def exported_def)

theorem default_keys_witness:
  "Keys sample_lib (\<lambda>_. task_value (zero_model\<lparr>m_ID := 5\<rparr>) ''n'') (ptr task_type 0) =
     Ok (''Task#5'', ''Task#5'')"
proof -
  let ?h = "\<lambda>_ :: nat. task_value (zero_model\<lparr>m_ID := 5\<rparr>) ''n''"
  have "value_field task_type (?h 0) ''ID'' = Some (TUUID, VUUID 5)" by (simp add: sample_fields)
  from default_keys[OF parse_task _ _ this, of sample_lib] show ?thesis
    by (simp add: nat_string.simps)
qed

text \<open>
  C36: The key builders do not panic on a well-typed entity whose key fields exist and are
  exported.
\<close>

theorem keys_total:
  assumes "parse_tags t = Ok mt" and "has_type (h a) t"
    and "list_all (\<lambda>n. exported n \<and> field_by_name t n \<noteq> None) (pk_names mt @ sk_names mt)"
  shows "\<exists>pk sk. Keys L h (ptr t a) = Ok (pk, sk)"
proof -
  have all: "list_all (\<lambda>n. exported n \<and> field_by_name t n \<noteq> None) (pk_names mt)"
    "list_all (\<lambda>n. exported n \<and> field_by_name t n \<noteq> None) (sk_names mt)"
    using assms(3) by simp_all
  obtain ps qs where "key_parts L (type_name t) (t, h a) (pk_names mt) = Ok ps"
      and "key_parts L (type_name t) (t, h a) (sk_names mt) = Ok qs"
    using key_parts_total[OF assms(2) all(1)] key_parts_total[OF assms(2) all(2)] by metis
  then show ?thesis by (simp add: Keys_def key_of_pointer[OF assms(1)] buildKey_def)
qed

theorem keys_total_witness:
  "\<exists>pk sk. Keys sample_lib (\<lambda>_. order_value 5 ''open'') (ptr order_type 0) = Ok (pk, sk)"
  by (rule keys_total[OF parse_order]) (simp_all add: pk_names_def sk_names_def order_fields)

text \<open>
  A clause that names a field the struct does not have makes the key builder panic.
\<close>

theorem unknown_key_field_panics:
  assumes "parse_tags t = Ok mt" and "n \<in> set (pk_names mt)" and "field_by_name t n = None"
  shows "\<exists>m. PK L h (ptr t a) = Panic m"
proof -
  have "\<exists>m. key_parts L sn (t, v) names = Panic m" if "n \<in> set names" for names sn v
    using that assms(3)
  proof (induction names)
    case Nil
    then show ?case by simp
  next
    case (Cons n' names)
    then show ?case by (cases "n' = n") (auto simp: value_field_def split: option.splits)
  qed
  with assms(2) obtain m where "key_parts L (type_name t) (t, h a) (pk_names mt) = Panic m" by blast
  then show ?thesis by (simp add: key_of_pointer[OF assms(1)] buildKey_def)
qed

definition bad_key_type :: gtype where
  "bad_key_type = TStruct ''main'' ''Bad'' [GField ''Model'' True [(''dynamo'', ''pk:Nope'')] model_type]"

lemma bad_key_fields:
  "field_by_name bad_key_type ''Model'' =
     Some ([0], GField ''Model'' True [(''dynamo'', ''pk:Nope'')] model_type)"
  "field_by_name bad_key_type ''Nope'' = None"
  by (simp_all add: field_search bad_key_type_def model_type_def)

theorem unknown_key_field_panics_witness:
  "\<exists>m. PK sample_lib (\<lambda>_. VStruct [val_of_model zero_model]) (ptr bad_key_type 0) = Panic m"
proof -
  have "''pk:Nope'' = render_tag True [''Nope''] []" by (simp add: render_tag_def render_clause_def)
  then have "pkFields (parse_model_clauses
      \<lparr>structName = n, pkFields = [], skFields = [], compressFields = []\<rparr>
      (GField ''Model'' True [(''dynamo'', ''pk:Nope'')] model_type)) = [''Nope'']" for n
    using parse_rendered_clauses[of "[''Nope'']" "[]" "[(''dynamo'', ''pk:Nope'')]" True]
    by (simp add: plain_name_def plain_char_def tag_lookup_def)
  then show ?thesis
    using unknown_key_field_panics[OF parse_tags_found[OF bad_key_fields(1)] _ bad_key_fields(2)]
    by (simp add: pk_names_def)
qed

end
