(* ===== verification/Compress.thy ===== *)
theory Compress
  imports Keys
begin

text \<open>
  \<open>compress.go\<close>: the marshaling of entities, with the fields tagged
  \<open>dynamo:"compress"\<close> stored as gzip-compressed JSON in a Binary attribute. JSON, gzip and
  \<open>attributevalue\<close> are parameters. Unmarshaling writes its destination in place, so its state
  is the destination's value (\<open>unmarshal_value\<close>) or the heap (\<open>unmarshalItemInto\<close>).
\<close>

section \<open>Compression\<close>

definition compressJSON :: "'w lib \<Rightarrow> byte list \<Rightarrow> byte list outcome" where
  "compressJSON L data = wrap_fail ''godynamo: gzip compress'' (of_result (lib_gzip_write L data))"

definition decompressJSON :: "'w lib \<Rightarrow> byte list \<Rightarrow> byte list outcome" where
  "decompressJSON L data =
     (case lib_gzip_open L data of
        Some e \<Rightarrow> Fail (Wrapped ''godynamo: gzip decompress'' e)
      | None \<Rightarrow> wrap_fail ''godynamo: gzip decompress'' (of_result (lib_gzip_read L data)))"

section \<open>Marshaling\<close>

text \<open>The loop of \<open>marshalItem\<close> over the compressed fields.\<close>

fun compress_fields ::
    "'w lib \<Rightarrow> heap \<Rightarrow> gtype \<times> gval \<Rightarrow> string list \<Rightarrow> item \<Rightarrow> item outcome" where
  "compress_fields L h sv [] av = Ok av"
| "compress_fields L h sv (name # names) av =
     (case value_field (fst sv) (snd sv) name of
        None \<Rightarrow> compress_fields L h sv names av
      | Some (ft, fv) \<Rightarrow>
          (if \<not> exported name
           then Panic ''reflect.Value.Interface: cannot return value obtained from unexported field or method''
           else and_then
             (wrap_fail (''godynamo: marshaling compressed field '' @ name)
               (of_result (lib_json_marshal L h ft fv)))
             (\<lambda>raw. and_then
               (wrap_fail (''godynamo: compressing field '' @ name) (compressJSON L raw))
               (\<lambda>z. compress_fields L h sv names
                 (fmupd (resolve_attr_name (fst sv) name) (AVB z) av)))))"

definition marshalItem :: "'w lib \<Rightarrow> heap \<Rightarrow> go_any \<Rightarrow> item outcome" where
  "marshalItem L h x =
     and_then (of_result (lib_marshal_map L h x)) (\<lambda>av.
     and_then (structValueOf h x) (\<lambda>sv.
     and_then (parse_tags (fst sv)) (\<lambda>mt.
       compress_fields L h sv (compressFields mt) av)))"

section \<open>Unmarshaling\<close>

type_synonym compressed_field = "string \<times> byte list"

text \<open>The type assertion \<open>raw.(*types.AttributeValueMemberB)\<close>.\<close>

fun as_binary :: "attr_val \<Rightarrow> byte list option" where
  "as_binary (AVB b) = Some b"
| "as_binary _ = None"

text \<open>\<open>extractCompressedFields\<close>: what is left of the item, and the fields set aside.\<close>

fun extract_fields ::
    "gtype \<Rightarrow> string list \<Rightarrow> item \<Rightarrow> item \<times> compressed_field list" where
  "extract_fields t [] filtered = (filtered, [])"
| "extract_fields t (name # names) filtered =
     (let attr = resolve_attr_name t name in
      case Option.bind (fmlookup filtered attr) as_binary of
        Some b \<Rightarrow>
          (case extract_fields t names (fmdrop attr filtered) of
             (rest, pending) \<Rightarrow> (rest, (name, b) # pending))
      | None \<Rightarrow> extract_fields t names filtered)"

definition extractCompressedFields ::
    "gtype \<Rightarrow> model_tags \<Rightarrow> item \<Rightarrow> item \<times> compressed_field list" where
  "extractCompressedFields t mt av = extract_fields t (compressFields mt) av"

text \<open>\<open>applyPendingCompressedFields\<close>; fields that do not exist or cannot be set are skipped.\<close>

fun applyPendingCompressedFields ::
    "'w lib \<Rightarrow> gtype \<Rightarrow> compressed_field list \<Rightarrow> (gval, unit) act" where
  "applyPendingCompressedFields L t [] v = (Ok (), v)"
| "applyPendingCompressedFields L t ((name, data) # pending) v =
     continue (wrap_fail (''godynamo: decompressing field '' @ name) (decompressJSON L data), v)
       (\<lambda>raw v.
         case field_by_name t name of
           None \<Rightarrow> applyPendingCompressedFields L t pending v
         | Some (p, f) \<Rightarrow>
             (if \<not> exported name then applyPendingCompressedFields L t pending v
              else continue
                (wrap_fail (''godynamo: unmarshaling compressed field '' @ name)
                  (of_result (lib_json_unmarshal L raw (f_type f))), v)
                (\<lambda>x v. applyPendingCompressedFields L t pending (put_at v p x))))"

text \<open>The call of \<open>attributevalue.UnmarshalMap\<close> with its error wrapped.\<close>

definition unmarshal_map_into :: "'w lib \<Rightarrow> item \<Rightarrow> gtype \<Rightarrow> (gval, unit) act" where
  "unmarshal_map_into L av t v =
     (case lib_unmarshal_map L av t v of
        (v', None) \<Rightarrow> (Ok (), v')
      | (v', Some e) \<Rightarrow> (Fail (Wrapped ''godynamo: unmarshal'' e), v'))"

text \<open>\<open>unmarshalItemInto\<close> from its \<open>parseTags\<close> on, on the destination's value.\<close>

definition unmarshal_value :: "'w lib \<Rightarrow> item \<Rightarrow> gtype \<Rightarrow> (gval, unit) act" where
  "unmarshal_value L av t v =
     continue (parse_tags t, v) (\<lambda>mt v.
       if compressFields mt = [] then unmarshal_map_into L av t v
       else (case extractCompressedFields t mt av of
               (filtered, pending) \<Rightarrow>
                 continue (unmarshal_map_into L filtered t v) (\<lambda>_ v.
                   applyPendingCompressedFields L t pending v)))"

definition any_type_string :: "go_any \<Rightarrow> string" where
  "any_type_string x = (case x of None \<Rightarrow> ''<nil>'' | Some (t, v) \<Rightarrow> type_string t)"

definition unmarshalItemInto :: "'w lib \<Rightarrow> item \<Rightarrow> go_any \<Rightarrow> (heap, unit) act" where
  "unmarshalItemInto L av dst h =
     (case dst of
        Some (TPtr t, VPtr (Some a)) \<Rightarrow>
          (case unmarshal_value L av t (h a) of (r, v) \<Rightarrow> (r, h(a := v)))
      | _ \<Rightarrow> (Panic (''godynamo: unmarshalItemInto requires a non-nil pointer, got '' @
          any_type_string dst), h))"

text \<open>\<open>var item T; unmarshalItemInto(av, &item)\<close>: into a fresh zero value.\<close>

definition unmarshal_fresh :: "'w lib \<Rightarrow> gtype \<Rightarrow> item \<Rightarrow> gval outcome" where
  "unmarshal_fresh L t av =
     (case unmarshal_value L av t (zero_value t) of (r, v) \<Rightarrow> map_ok (\<lambda>_. v) r)"

section \<open>Lemmas\<close>

lemma as_binary_Some [simp]: "as_binary v = Some b \<longleftrightarrow> v = AVB b"
  by (cases v) auto

text \<open>
  An attribute is set aside exactly when it is Binary and a compressed field resolves to it; the
  rest of the item is untouched.
\<close>

lemma extract_fields_lookup:
  "fmlookup (fst (extract_fields t names av)) k =
     (if \<exists>n\<in>set names. resolve_attr_name t n = k \<and> Option.bind (fmlookup av k) as_binary \<noteq> None
      then None else fmlookup av k)"
proof (induction names arbitrary: av)
  case Nil
  then show ?case by simp
next
  case (Cons n names)
  show ?case
  proof (cases "Option.bind (fmlookup av (resolve_attr_name t n)) as_binary")
    case None
    then show ?thesis using Cons[of av] by (auto simp: Let_def)
  next
    case (Some b)
    have "fst (extract_fields t (n # names) av) =
        fst (extract_fields t names (fmdrop (resolve_attr_name t n) av))"
      using Some by (simp add: Let_def split_beta)
    then show ?thesis
      using Cons[of "fmdrop (resolve_attr_name t n) av"] Some by auto
  qed
qed

lemma extract_fields_pending:
  "(n, b) \<in> set (snd (extract_fields t names av)) \<Longrightarrow>
   n \<in> set names \<and> fmlookup av (resolve_attr_name t n) = Some (AVB b)"
proof (induction names arbitrary: av)
  case Nil
  then show ?case by simp
next
  case (Cons m names)
  show ?case
  proof (cases "Option.bind (fmlookup av (resolve_attr_name t m)) as_binary")
    case None
    with Cons show ?thesis by (auto simp: Let_def)
  next
    case (Some c)
    then have av: "fmlookup av (resolve_attr_name t m) = Some (AVB c)"
      by (cases "fmlookup av (resolve_attr_name t m)") auto
    have "(n, b) = (m, c) \<or> (n, b) \<in> set (snd (extract_fields t names (fmdrop (resolve_attr_name t m) av)))"
      using Cons.prems Some by (auto simp: Let_def split_beta)
    with av Cons.IH[of "fmdrop (resolve_attr_name t m) av"] show ?thesis
      by (auto split: if_splits)
  qed
qed

section \<open>The round trip\<close>

text \<open>
  The laws of the codecs: what gzip wrote it opens and reads back; the JSON of each of the entity's own
  compressed fields, read into the field's type, is the field's value. The second is a condition on the
  entity: \<open>encoding/json\<close> does not bring back every value (a string that is not valid UTF-8, say).
\<close>

definition gzip_law :: "'w lib \<Rightarrow> bool" where
  "gzip_law L \<longleftrightarrow> (\<forall>d z. lib_gzip_write L d = Inr z \<longrightarrow>
     lib_gzip_open L z = None \<and> lib_gzip_read L z = Inr d)"

definition json_law :: "'w lib \<Rightarrow> heap \<Rightarrow> gtype \<Rightarrow> gval \<Rightarrow> string list \<Rightarrow> bool" where
  "json_law L h t v names \<longleftrightarrow> (\<forall>n\<in>set names. \<forall>p f x raw. field_by_name t n = Some (p, f) \<longrightarrow>
     get_at v p = Some x \<longrightarrow> lib_json_marshal L h (f_type f) x = Inr raw \<longrightarrow>
     lib_json_unmarshal L raw (f_type f) = Inr x)"

interpretation gz: codec "compressJSON L" "decompressJSON L" "\<lambda>_. gzip_law L" for L :: "'w lib"
  by unfold_locales (simp add: gzip_law_def compressJSON_def decompressJSON_def)

text \<open>The entity with its compressed fields at their zero values.\<close>

fun blank_fields :: "gtype \<Rightarrow> string list \<Rightarrow> gval \<Rightarrow> gval" where
  "blank_fields t [] v = v"
| "blank_fields t (n # ns) v =
     blank_fields t ns (case field_by_name t n of
       None \<Rightarrow> v
     | Some (p, f) \<Rightarrow> put_at v p (zero_value (f_type f)))"

text \<open>
  \<open>UnmarshalMap\<close> reads back what \<open>MarshalMap\<close> wrote for the entity at \<open>a\<close>: an item
  without the attributes of the fields \<open>names\<close> gives the entity with these fields zero, and the
  attributes in \<open>extra\<close>, which the type does not have, are ignored.
\<close>

definition unmarshal_law ::
    "'w lib \<Rightarrow> heap \<Rightarrow> gtype \<Rightarrow> addr \<Rightarrow> string list \<Rightarrow> string set \<Rightarrow> bool" where
  "unmarshal_law L h t a names extra \<longleftrightarrow>
     (\<forall>base i. lib_marshal_map L h (ptr t a) = Inr base \<longrightarrow>
        (\<forall>n\<in>set names. fmlookup i (resolve_attr_name t n) = None) \<longrightarrow>
        (\<forall>k. k \<notin> extra \<union> resolve_attr_name t ` set names \<longrightarrow> fmlookup i k = fmlookup base k) \<longrightarrow>
        lib_unmarshal_map L i t (zero_value t) = (blank_fields t names (h a), None))"

text \<open>Field names that resolve to exported fields at separate places, and separate attributes.\<close>

fun separate_fields :: "gtype \<Rightarrow> string list \<Rightarrow> bool" where
  "separate_fields t [] = True"
| "separate_fields t (n # ns) =
     (exported n \<and> (case field_by_name t n of
        None \<Rightarrow> False
      | Some (p, f) \<Rightarrow> list_all (\<lambda>m. resolve_attr_name t m \<noteq> resolve_attr_name t n \<and>
          (case field_by_name t m of None \<Rightarrow> False | Some (q, g) \<Rightarrow> apart p q)) ns) \<and>
      separate_fields t ns)"

lemma blank_fields_put:
  assumes "list_all (\<lambda>m. case field_by_name t m of None \<Rightarrow> False | Some (q, g) \<Rightarrow> apart p q) ns"
  shows "put_at (blank_fields t ns v) p x = blank_fields t ns (put_at v p x)"
  using assms
proof (induction ns arbitrary: v)
  case Nil
  then show ?case by simp
next
  case (Cons m ns)
  then obtain q g where q: "field_by_name t m = Some (q, g)" "apart p q"
    by (auto split: option.splits)
  then have "put_at (put_at v q (zero_value (f_type g))) p x = put_at (put_at v p x) q (zero_value (f_type g))"
    by (simp only: put_put_apart[of p q])
  with q Cons show ?case by simp
qed

definition stored_field :: "'w lib \<Rightarrow> heap \<Rightarrow> gtype \<Rightarrow> gval \<Rightarrow> item \<Rightarrow> string \<Rightarrow> bool" where
  "stored_field L h t v av n \<longleftrightarrow>
     (\<exists>p f x raw z. field_by_name t n = Some (p, f) \<and> get_at v p = Some x \<and>
        lib_json_marshal L h (f_type f) x = Inr raw \<and> compressJSON L raw = Ok z \<and>
        fmlookup av (resolve_attr_name t n) = Some (AVB z))"

lemma compress_fields_other:
  "compress_fields L h (t, v) names av = Ok av' \<Longrightarrow>
   \<forall>n\<in>set names. resolve_attr_name t n \<noteq> k \<Longrightarrow> fmlookup av' k = fmlookup av k"
  by (induction names arbitrary: av) (auto split: option.splits if_splits)

lemma compress_fields_stored:
  assumes "compress_fields L h (t, v) names av = Ok av'" and "separate_fields t names"
    and "has_type v t"
  shows "\<forall>n\<in>set names. stored_field L h t v av' n"
  using assms(1,2)
proof (induction names arbitrary: av)
  case Nil
  then show ?case by simp
next
  case (Cons n names)
  obtain p f where nf: "field_by_name t n = Some (p, f)"
    using Cons.prems(2) by (auto split: option.splits)
  then obtain x where x: "value_field t v n = Some (f_type f, x)" "get_at v p = Some x"
    using value_field_typed[OF assms(3)] by blast
  obtain raw z where rz: "lib_json_marshal L h (f_type f) x = Inr raw" "compressJSON L raw = Ok z"
      "compress_fields L h (t, v) names (fmupd (resolve_attr_name t n) (AVB z) av) = Ok av'"
    using Cons.prems x by auto
  have "fmlookup av' (resolve_attr_name t n) = Some (AVB z)"
    using compress_fields_other[OF rz(3)] Cons.prems(2) nf by (force simp: list_all_iff)
  then have "stored_field L h t v av' n" using nf x rz by (auto simp: stored_field_def)
  then show ?case using Cons.IH[OF rz(3)] Cons.prems(2) by simp
qed

text \<open>Setting the compressed fields aside and writing them back restores the entity.\<close>

lemma pending_restores:
  assumes "\<forall>n\<in>set names. stored_field L h t v av n" and "separate_fields t names"
    and "gzip_law L"
    and "json_law L h t v names"
  shows "applyPendingCompressedFields L t (snd (extract_fields t names av)) (blank_fields t names v) =
    (Ok (), v)"
  using assms(1,2,4)
proof (induction names arbitrary: av)
  case Nil
  then show ?case by simp
next
  case (Cons n names)
  obtain p f x raw z where nf: "field_by_name t n = Some (p, f)" "get_at v p = Some x"
      "lib_json_marshal L h (f_type f) x = Inr raw" "compressJSON L raw = Ok z"
      "fmlookup av (resolve_attr_name t n) = Some (AVB z)"
    using Cons.prems(1) by (auto simp: stored_field_def)
  have json: "lib_json_unmarshal L raw (f_type f) = Inr x"
    using Cons.prems(3) nf by (auto simp: json_law_def)
  have sep: "list_all (\<lambda>m. case field_by_name t m of None \<Rightarrow> False | Some (q, g) \<Rightarrow> apart p q) names"
    and attrs: "\<forall>m\<in>set names. resolve_attr_name t m \<noteq> resolve_attr_name t n"
    and ex: "exported n" and sep': "separate_fields t names"
    using Cons.prems(2) nf(1) by (auto simp: list_all_iff)
  have restored: "put_at (blank_fields t (n # names) v) p x = blank_fields t names v"
    using blank_fields_put[OF sep, of "put_at v p (zero_value (f_type f))" x] nf(1,2)
    by (simp add: put_get_id)
  have "\<forall>m\<in>set names. stored_field L h t v (fmdrop (resolve_attr_name t n) av) m"
    using Cons.prems(1) attrs by (auto simp: stored_field_def)
  moreover have "json_law L h t v names" using Cons.prems(3) by (simp add: json_law_def)
  ultimately show ?case using Cons.IH[OF _ sep']
    nf json ex gz.round_trip[OF assms(3) nf(4)] restored
    by (simp add: Let_def split_beta del: blank_fields.simps)
qed

section \<open>Properties\<close>

lemma marshalItem_Ok:
  assumes "parse_tags t = Ok mt" and "marshalItem L h (ptr t a) = Ok av"
  shows "\<exists>base. lib_marshal_map L h (ptr t a) = Inr base \<and>
    compress_fields L h (t, h a) (compressFields mt) base = Ok av"
  using assms by (auto simp: marshalItem_def)

lemma round_trip_core:
  assumes "parse_tags t = Ok mt" and "has_type (h a) t"
    and "separate_fields t (compressFields mt)"
    and "marshalItem L h (ptr t a) = Ok av"
    and "gzip_law L"
    and "json_law L h t (h a) (compressFields mt)"
    and "\<forall>k. k \<notin> extra \<longrightarrow> fmlookup stored k = fmlookup av k"
    and "\<forall>n\<in>set (compressFields mt). resolve_attr_name t n \<notin> extra"
    and "unmarshal_law L h t a (compressFields mt) extra"
  shows "unmarshal_fresh L t stored = Ok (h a)"
proof -
  let ?ns = "compressFields mt"
  let ?i = "fst (extract_fields t ?ns stored)"
  obtain base where base: "lib_marshal_map L h (ptr t a) = Inr base"
      "compress_fields L h (t, h a) ?ns base = Ok av"
    using marshalItem_Ok[OF assms(1,4)] by blast
  from compress_fields_stored[OF base(2) assms(3,2)] assms(7,8)
  have kept: "\<forall>n\<in>set ?ns. stored_field L h t (h a) stored n" by (simp add: stored_field_def)
  have "fmlookup ?i (resolve_attr_name t n) = None" if n: "n \<in> set ?ns" for n
  proof -
    obtain z where "fmlookup stored (resolve_attr_name t n) = Some (AVB z)"
      using kept n by (auto simp: stored_field_def)
    with n show ?thesis by (auto simp: extract_fields_lookup)
  qed
  moreover have "fmlookup ?i k = fmlookup base k" if k: "k \<notin> extra \<union> resolve_attr_name t ` set ?ns" for k
  proof -
    have "\<forall>n\<in>set ?ns. resolve_attr_name t n \<noteq> k" using k by auto
    with compress_fields_other[OF base(2), of k] k assms(7) show ?thesis by (simp add: extract_fields_lookup)
  qed
  ultimately have un: "lib_unmarshal_map L ?i t (zero_value t) = (blank_fields t ?ns (h a), None)"
    using assms(9) base(1) by (simp add: unmarshal_law_def)
  show ?thesis
  proof (cases "?ns = []")
    case True
    with un show ?thesis
      by (simp add: unmarshal_fresh_def unmarshal_value_def assms(1) unmarshal_map_into_def
          extractCompressedFields_def)
  next
    case False
    with un pending_restores[OF kept assms(3,5,6)] show ?thesis
      by (simp add: unmarshal_fresh_def unmarshal_value_def assms(1) unmarshal_map_into_def
          extractCompressedFields_def split_beta)
  qed
qed

text \<open>
  C10: Compression is transparent: an entity marshaled and read back into a fresh value is the
  entity, also after other attributes (the keys) were added to the item, provided that the values of its
  compressed fields survive JSON. Gzip reads back what it wrote, and \<open>UnmarshalMap\<close> restores the
  fields that are not compressed.
\<close>

theorem compressed_round_trip:
  assumes "parse_tags t = Ok mt" and "has_type (h a) t"
    and "separate_fields t (compressFields mt)"
    and "marshalItem L h (ptr t a) = Ok av"
    and "gzip_law L"
    and "json_law L h t (h a) (compressFields mt)"
    and "\<forall>k. k \<notin> extra \<longrightarrow> fmlookup stored k = fmlookup av k"
    and "\<forall>n\<in>set (compressFields mt). resolve_attr_name t n \<notin> extra"
    and "unmarshal_law L h t a (compressFields mt) extra"
  shows "unmarshal_fresh L t stored = Ok (h a)"
  using assms by (rule round_trip_core)

lemma sample_gzip_law: "gzip_law sample_lib"
  by (simp add: gzip_law_def sample_lib_def)

lemma sample_json_law: "json_law sample_lib h task_type v [''Notes'']"
proof -
  have "sample_unjson raw TString = Inr x" if "sample_json TString x = Inr raw" for x raw
    using that by (cases x) (auto simp: comp_def unat_of_nat of_char_of)
  then show ?thesis by (simp add: json_law_def task_fields)
qed

lemma task_notes_attr: "resolve_attr_name task_type ''Notes'' = ''Notes''"
  by (simp add: resolve_attr_name_def task_fields tag_lookup_def)

lemma task_marshaled:
  "marshalItem sample_lib (\<lambda>_. task_value m notes) (ptr task_type 0) =
     Ok (fmupd ''Notes'' (AVB (0x1f # 0x8b # map (\<lambda>c. word_of_nat (of_char c)) notes))
       (marshal_leaves (task_value m notes) (type_leaves task_type)))"
  by (simp add: marshalItem_def structValueOf_simps[OF parse_task] parse_task sample_fields
      compressJSON_def task_notes_attr)

lemma task_leaves:
  "type_leaves task_type =
    [([0, 0], GField ''ID'' False [] TUUID), ([0, 1], GField ''Type'' False [] TString),
     ([0, 2], GField ''CreatedAt'' False [] TTime), ([0, 3], GField ''CreatedBy'' False [] TString),
     ([0, 4], GField ''UpdatedAt'' False [] TTime), ([0, 5], GField ''UpdatedBy'' False [] TString),
     ([0, 6], GField ''Version'' False [] TInt), ([1], GField ''Project'' False [] TString),
     ([2], GField ''Status'' False [] TString), ([3], GField ''Title'' False [] TString),
     ([4], GField ''Notes'' False [(''dynamo'', ''compress'')] TString)]"
  by (simp add: type_leaves_def task_type_def model_type_def)

lemma task_leaf_lookup:
  "fmlookup (marshal_leaves (task_value m n) (type_leaves task_type)) k = map_of
    [(''ID'', enc_val (VUUID (m_ID m))), (''Type'', AVS (m_Type m)),
     (''CreatedAt'', enc_val (VTime (m_CreatedAt m))), (''CreatedBy'', AVS (m_CreatedBy m)),
     (''UpdatedAt'', enc_val (VTime (m_UpdatedAt m))), (''UpdatedBy'', AVS (m_UpdatedBy m)),
     (''Version'', enc_val (VInt (m_Version m))), (''Project'', AVS ''roadmap''), (''Status'', AVS ''open''),
     (''Title'', AVS ''Write README''), (''Notes'', AVS n)] k"
  by (simp add: task_leaves task_value_def val_of_model_def)

lemma task_unmarshal_leaves:
  assumes "\<And>k. k \<in> {''ID'', ''Type'', ''CreatedAt'', ''CreatedBy'', ''UpdatedAt'', ''UpdatedBy'', ''Version'',
      ''Project'', ''Status'', ''Title''} \<Longrightarrow>
      fmlookup i k = fmlookup (marshal_leaves (task_value m n) (type_leaves task_type)) k"
    and "fmlookup i ''Notes'' = None"
  shows "unmarshal_leaves i (type_leaves task_type) (zero_value task_type) = task_value m []"
proof -
  have z: "zero_value task_type = VStruct [val_of_model zero_model, VStr [], VStr [], VStr [], VStr []]"
    by (simp add: task_type_def model_type_def val_of_model_def zero_model_def)
  have "fmlookup i ''ID'' = Some (enc_val (VUUID (m_ID m)))" "fmlookup i ''Type'' = Some (AVS (m_Type m))"
    "fmlookup i ''CreatedAt'' = Some (enc_val (VTime (m_CreatedAt m)))"
    "fmlookup i ''CreatedBy'' = Some (AVS (m_CreatedBy m))"
    "fmlookup i ''UpdatedAt'' = Some (enc_val (VTime (m_UpdatedAt m)))"
    "fmlookup i ''UpdatedBy'' = Some (AVS (m_UpdatedBy m))"
    "fmlookup i ''Version'' = Some (enc_val (VInt (m_Version m)))"
    "fmlookup i ''Project'' = Some (AVS ''roadmap'')" "fmlookup i ''Status'' = Some (AVS ''open'')"
    "fmlookup i ''Title'' = Some (AVS ''Write README'')"
    by (simp_all add: assms(1) task_leaf_lookup)
  then show ?thesis
    by (simp add: z task_leaves assms(2) task_value_def val_of_model_def)
qed

lemma task_unmarshal_law:
  assumes "h a = task_value m n"
  shows "unmarshal_law sample_lib h task_type a [''Notes''] {''PK'', ''SK'', ''GSI1PK''}"
  unfolding unmarshal_law_def
proof (intro allI impI)
  fix base i
  let ?l = "marshal_leaves (task_value m n) (type_leaves task_type)"
  assume "lib_marshal_map sample_lib h (ptr task_type a) = Inr base"
    and gone: "\<forall>n\<in>set [''Notes'']. fmlookup i (resolve_attr_name task_type n) = None"
    and same: "\<forall>k. k \<notin> {''PK'', ''SK'', ''GSI1PK''} \<union> resolve_attr_name task_type ` set [''Notes''] \<longrightarrow>
      fmlookup i k = fmlookup base k"
  then have base: "base = ?l" by (simp add: assms)
  have "unmarshal_leaves i (type_leaves task_type) (zero_value task_type) = task_value m []"
  proof (rule task_unmarshal_leaves)
    show "fmlookup i ''Notes'' = None" using gone by (simp add: task_notes_attr)
    show "fmlookup i k = fmlookup ?l k"
      if "k \<in> {''ID'', ''Type'', ''CreatedAt'', ''CreatedBy'', ''UpdatedAt'', ''UpdatedBy'', ''Version'',
        ''Project'', ''Status'', ''Title''}" for k
      using that base by (intro same[rule_format, THEN trans]) (auto simp: task_notes_attr)
  qed
  moreover have "blank_fields task_type [''Notes''] (h a) = task_value m []"
    by (simp add: assms task_fields task_value_def)
  ultimately show "lib_unmarshal_map sample_lib i task_type (zero_value task_type) =
      (blank_fields task_type [''Notes''] (h a), None)"
    by (simp add: sample_lib_def)
qed

theorem compressed_round_trip_witness:
  "\<exists>av. marshalItem sample_lib (\<lambda>_. task_value zero_model ''hi'') (ptr task_type 0) = Ok av \<and>
    unmarshal_fresh sample_lib task_type av = Ok (task_value zero_model ''hi'')"
proof -
  let ?h = "\<lambda>_ :: nat. task_value zero_model ''hi''"
  obtain av where av: "marshalItem sample_lib ?h (ptr task_type 0) = Ok av"
    by (simp add: task_marshaled)
  from compressed_round_trip[OF parse_task _ _ av sample_gzip_law, of "{''PK'', ''SK'', ''GSI1PK''}" av]
    task_unmarshal_law[of ?h 0 zero_model "''hi''"]
  have "unmarshal_fresh sample_lib task_type av = Ok (?h 0)"
    by (simp add: task_fields task_notes_attr sample_json_law)
  with av show ?thesis by blast
qed

text \<open>
  For a type without compressed fields the two functions are \<open>MarshalMap\<close> and
  \<open>UnmarshalMap\<close>.
\<close>

theorem uncompressed_types_unchanged:
  assumes "parse_tags t = Ok mt" and "compressFields mt = []"
  shows "marshalItem L h (ptr t a) = of_result (lib_marshal_map L h (ptr t a)) \<and>
    unmarshal_value L av t v = unmarshal_map_into L av t v"
proof (cases "lib_marshal_map L h (ptr t a)")
  case (Inl e)
  then show ?thesis by (simp add: marshalItem_def unmarshal_value_def assms)
next
  case (Inr base)
  then show ?thesis by (simp add: marshalItem_def unmarshal_value_def assms)
qed

theorem uncompressed_types_unchanged_witness:
  "marshalItem sample_lib (\<lambda>_. order_value 5 ''open'') (ptr order_type 0) =
     of_result (lib_marshal_map sample_lib (\<lambda>_. order_value 5 ''open'') (ptr order_type 0))"
  using uncompressed_types_unchanged[OF parse_order, of sample_lib "\<lambda>_. order_value 5 ''open''" 0] by simp

text \<open>
  Reading an item sets aside exactly the Binary attributes of the compressed fields: they
  are gone from what \<open>UnmarshalMap\<close> sees, every other attribute (also a compressed field's
  attribute of an older, uncompressed item) stays as it is, and each set-aside entry carries its
  field's bytes.
\<close>

theorem extraction_splits_item:
  "(\<forall>k. fmlookup (fst (extractCompressedFields t mt av)) k =
      (if (\<exists>n\<in>set (compressFields mt). resolve_attr_name t n = k) \<and> (\<exists>b. fmlookup av k = Some (AVB b))
       then None else fmlookup av k)) \<and>
    list_all (\<lambda>(n, b). n \<in> set (compressFields mt) \<and>
        fmlookup av (resolve_attr_name t n) = Some (AVB b)) (snd (extractCompressedFields t mt av))"
proof (intro conjI allI)
  fix k
  have "Option.bind (fmlookup av k) as_binary \<noteq> None \<longleftrightarrow> (\<exists>b. fmlookup av k = Some (AVB b))"
    by (cases "fmlookup av k") auto
  then show "fmlookup (fst (extractCompressedFields t mt av)) k =
      (if (\<exists>n\<in>set (compressFields mt). resolve_attr_name t n = k) \<and> (\<exists>b. fmlookup av k = Some (AVB b))
       then None else fmlookup av k)"
    by (auto simp: extractCompressedFields_def extract_fields_lookup)
next
  show "list_all (\<lambda>(n, b). n \<in> set (compressFields mt) \<and>
        fmlookup av (resolve_attr_name t n) = Some (AVB b)) (snd (extractCompressedFields t mt av))"
    using extract_fields_pending by (fastforce simp: extractCompressedFields_def list_all_iff)
qed

end
