(* ===== verification/Crud.thy ===== *)
theory Crud
  imports Sample_DB Compress
begin

text \<open>
  \<open>crud.go\<close>: the audit stamping shared by all writes, \<open>Put\<close>, \<open>Get\<close>,
  \<open>Delete\<close> and the \<open>UpdateBuilder\<close>. A type parameter \<open>T\<close> of the Go code is an
  argument \<open>t\<close>; a returned \<open>*T\<close> to a fresh variable is the value it points to. The
  stamping mutates the caller's entity in the heap, also when the call fails later.
\<close>

section \<open>Access to the embedded Model\<close>

text \<open>\<open>modelFieldOf\<close>: the entity's type and address, and its Model as it is.\<close>

definition modelFieldOf :: "heap \<Rightarrow> go_any \<Rightarrow> (gtype \<times> addr \<times> model) outcome" where
  "modelFieldOf h x =
     (case x of
        Some (TPtr t, VPtr (Some a)) \<Rightarrow>
          (if struct_fields t = None
           then Panic ''reflect: call of reflect.Value.FieldByName on non-struct Value''
           else (case model_at t (h a) of
             None \<Rightarrow> Panic ''godynamo: struct must embed godynamo.Model''
           | Some m \<Rightarrow> Ok (t, a, m)))
      | _ \<Rightarrow> Panic ''godynamo: expected a non-nil pointer to a struct embedding Model'')"

definition on_model :: "gtype \<Rightarrow> addr \<Rightarrow> (model \<Rightarrow> model) \<Rightarrow> 'w st \<Rightarrow> 'w st" where
  "on_model t a f s = s\<lparr>mem := (mem s)(a := with_model t f (mem s a))\<rparr>"

definition in_heap :: "(heap, 'a) act \<Rightarrow> ('w st, 'a) act" where
  "in_heap f s = (case f (mem s) of (r, h) \<Rightarrow> (r, s\<lparr>mem := h\<rparr>))"

lemma in_heap_iff: "in_heap f s = (r, s') \<longleftrightarrow> (\<exists>h. f (mem s) = (r, h) \<and> s' = s\<lparr>mem := h\<rparr>)"
  by (auto simp: in_heap_def split: prod.splits)

section \<open>Keys of a zero value\<close>

text \<open>\<open>zeroKeys[T](id)\<close>, on a fresh zero value.\<close>

definition zeroKeys :: "'w lib \<Rightarrow> heap \<Rightarrow> gtype \<Rightarrow> uuid \<Rightarrow> (string \<times> string) outcome" where
  "zeroKeys L h t i =
     (if model_path t = None then Panic ''godynamo: struct must embed godynamo.Model''
      else Keys L h (Some (t, with_model t (\<lambda>m. m\<lparr>m_ID := i\<rparr>) (zero_value t))))"

text \<open>\<open>requiresDefaultKey[T](op)\<close>; the dash of its message is U+2014 in UTF-8.\<close>

definition em_dash :: string where
  "em_dash = map char_of [0xE2, 0x80, 0x94 :: nat]"

definition requiresDefaultKey :: "gtype \<Rightarrow> string \<Rightarrow> unit outcome" where
  "requiresDefaultKey t op =
     and_then (parse_tags t) (\<lambda>mt.
       if pkFields mt = [] \<and> skFields mt = [] then Ok ()
       else Fail (Wrapped
         (''godynamo: '' @ op @ '' requires T to use the default (ID-only) PK/SK; '' @
          type_string t @ [char_of (39 :: nat)] @ ''s dynamo tag references other fields '' @ em_dash @
          '' use Query or TransactGet instead'')
         ErrNonDefaultKey))"

definition itemKey :: "string \<Rightarrow> string \<Rightarrow> item" where
  "itemKey pk sk = fmupd ''SK'' (AVS sk) (fmupd ''PK'' (AVS pk) fmempty)"

text \<open>\<open>asOptimisticLockErr\<close>; \<open>id_text\<close> is the \<open>"%s (id=%s)"\<close> of the messages.\<close>

definition id_text :: "'w lib \<Rightarrow> gtype \<Rightarrow> uuid \<Rightarrow> string" where
  "id_text L t i = type_name t @ '' (id='' @ lib_uuid_string L i @ '')''"

definition asOptimisticLockErr :: "'w lib \<Rightarrow> go_err \<Rightarrow> string \<Rightarrow> gtype \<Rightarrow> uuid \<Rightarrow> go_err" where
  "asOptimisticLockErr L e action t i =
     Wrapped (''godynamo: '' @ action @ '' '' @ id_text L t i)
       (if as_cond_check_failed e \<noteq> None then ErrOptimisticLock else e)"

section \<open>Stamping and marshaling\<close>

text \<open>
  The first half of \<open>stampAndMarshal\<close>: the clock and the actor are read once, then the create or
  the update branch stamps the Model. The result says whether the item is new, and the condition.
\<close>

definition version_equals :: "go_int \<Rightarrow> condition" where
  "version_equals v = Compare CmpEq ''Version'' (Some (TInt, VInt v))"

definition stamp ::
    "'w lib \<Rightarrow> ('c, 'w) db \<Rightarrow> 'c \<Rightarrow> gtype \<Rightarrow> addr \<Rightarrow> model \<Rightarrow> ('w st, bool \<times> condition) act" where
  "stamp L d ctx t a m s =
     (case draw (db_clock d) s of (now, s1) \<Rightarrow>
        (let actor = db_actor d ctx in
         if m_CreatedAt m = 0
         then (case (if m_ID m = 0 then draw (lib_uuid_new L) s1 else (m_ID m, s1)) of (i, s2) \<Rightarrow>
           continue (in_heap (SetType (ptr t a)) (on_model t a (\<lambda>m. m\<lparr>m_ID := i\<rparr>) s2)) (\<lambda>_ s3.
             (Ok (True, AttrNotExists ''PK''),
              on_model t a (\<lambda>m. m\<lparr>m_CreatedAt := now, m_CreatedBy := actor, m_UpdatedAt := now,
                m_UpdatedBy := actor, m_Version := 1\<rparr>) s3)))
         else (Ok (False, version_equals (m_Version m)),
           on_model t a (\<lambda>m'. m'\<lparr>m_UpdatedAt := now, m_UpdatedBy := actor,
             m_Version := m_Version m + 1\<rparr>) s1)))"

text \<open>The second half: marshaling, and the key attributes.\<close>

definition marshal_with_keys ::
    "'w lib \<Rightarrow> ('c, 'w) db \<Rightarrow> heap \<Rightarrow> gtype \<Rightarrow> addr \<Rightarrow> uuid \<Rightarrow> bool \<Rightarrow> item outcome" where
  "marshal_with_keys L d h t a i newItem =
     and_then (wrap_fail (''godynamo: marshaling '' @ id_text L t i) (marshalItem L h (ptr t a))) (\<lambda>av.
     and_then (PK L h (ptr t a)) (\<lambda>pk.
     and_then (SK L h (ptr t a)) (\<lambda>sk.
       (let av' = fmupd ''SK'' (AVS sk) (fmupd ''PK'' (AVS pk) av) in
        Ok (if newItem then fmupd (db_gsi1PKAttr d) (AVS (type_name t)) av' else av')))))"

text \<open>
  \<open>reflect.TypeOf(item).Elem()\<close> panics on the nil interface and on a type that has no element type
  (of the opaque types, some have one and are refused by \<open>modelFieldOf\<close>).
\<close>

definition type_elem :: "go_any \<Rightarrow> unit outcome" where
  "type_elem x =
     (case x of
        None \<Rightarrow> Panic ''runtime error: invalid memory address or nil pointer dereference''
      | Some (t, v) \<Rightarrow>
          (case t of
             TPtr e \<Rightarrow> Ok ()
           | TUUID \<Rightarrow> Ok ()
           | TOther n \<Rightarrow> Ok ()
           | _ \<Rightarrow> Panic (''reflect: Elem of invalid type '' @ type_string t)))"

lemma type_elem_ptr [simp]: "type_elem (Some (TPtr t, v)) = Ok ()"
  by (simp add: type_elem_def)

definition stampAndMarshal ::
    "'w lib \<Rightarrow> ('c, 'w) db \<Rightarrow> 'c \<Rightarrow> go_any \<Rightarrow> ('w st, item \<times> condition) act" where
  "stampAndMarshal L d ctx x s =
     continue (and_then (type_elem x) (\<lambda>_. modelFieldOf (mem s) x), s) (\<lambda>(t, a, m) s.
     continue (stamp L d ctx t a m s) (\<lambda>(newItem, cond) s.
       (map_ok (\<lambda>av. (av, cond)) (marshal_with_keys L d (mem s) t a (m_ID m) newItem), s)))"

section \<open>Put, Get, Delete\<close>

definition Put :: "'w lib \<Rightarrow> ('c, 'w) db \<Rightarrow> gtype \<Rightarrow> 'c \<Rightarrow> addr option \<Rightarrow> ('w st, unit) act" where
  "Put L d t ctx p s =
     (let x = Some (TPtr t, VPtr p) in
      continue (stampAndMarshal L d ctx x s) (\<lambda>(av, cond) s.
      continue (modelFieldOf (mem s) x, s) (\<lambda>(_, _, m) s.
      continue
        (wrap_fail (''godynamo: building put condition for '' @ id_text L t (m_ID m))
          (build_expr L (no_parts\<lparr>ex_condition := Some cond\<rparr>)), s) (\<lambda>ex s.
      map_fail (\<lambda>e. asOptimisticLockErr L e ''put'' t (m_ID m))
        (api (PutItem (db_client d))
          \<lparr>pi_table = db_table d, pi_item = av, pi_condition = ex_condition ex\<rparr> s)))))"

definition Get :: "'w lib \<Rightarrow> ('c, 'w) db \<Rightarrow> gtype \<Rightarrow> uuid \<Rightarrow> ('w st, gval) act" where
  "Get L d t i s =
     continue (requiresDefaultKey t ''Get[T]'', s) (\<lambda>_ s.
     continue (zeroKeys L (mem s) t i, s) (\<lambda>(pk, sk) s.
     continue
       (map_fail (Wrapped (''godynamo: get '' @ id_text L t i))
         (api (GetItem (db_client d)) \<lparr>ki_table = db_table d, ki_key = itemKey pk sk\<rparr> s)) (\<lambda>out s.
       (if out = fmempty
        then Fail (Wrapped (''godynamo: get '' @ id_text L t i) ErrNotFound)
        else wrap_fail (''godynamo: unmarshal '' @ id_text L t i) (unmarshal_fresh L t out), s))))"

definition Delete :: "'w lib \<Rightarrow> ('c, 'w) db \<Rightarrow> gtype \<Rightarrow> uuid \<Rightarrow> ('w st, unit) act" where
  "Delete L d t i s =
     continue (requiresDefaultKey t ''Delete[T]'', s) (\<lambda>_ s.
     continue (zeroKeys L (mem s) t i, s) (\<lambda>(pk, sk) s.
       map_fail (Wrapped (''godynamo: delete '' @ id_text L t i))
         (api (DeleteItem (db_client d)) \<lparr>ki_table = db_table d, ki_key = itemKey pk sk\<rparr> s)))"

section \<open>The update builder\<close>

record update_op =
  uo_name :: string
  uo_val :: go_any
  uo_add :: bool

record ('c, 'w) update_builder =
  ub_type :: gtype
  ub_db :: "('c, 'w) db"
  ub_id :: uuid
  ub_ops :: "update_op list"
  ub_version :: "go_int option"

definition Update :: "gtype \<Rightarrow> ('c, 'w) db \<Rightarrow> uuid \<Rightarrow> ('c, 'w) update_builder" where
  "Update t d i = \<lparr>ub_type = t, ub_db = d, ub_id = i, ub_ops = [], ub_version = None\<rparr>"

definition UpdateBuilder_Set ::
    "('c, 'w) update_builder \<Rightarrow> string \<Rightarrow> go_any \<Rightarrow> ('c, 'w) update_builder" where
  "UpdateBuilder_Set b field v =
     b\<lparr>ub_ops := ub_ops b @
       [\<lparr>uo_name = resolve_attr_name (ub_type b) field, uo_val = v, uo_add = False\<rparr>]\<rparr>"

definition UpdateBuilder_Add ::
    "('c, 'w) update_builder \<Rightarrow> string \<Rightarrow> go_any \<Rightarrow> ('c, 'w) update_builder" where
  "UpdateBuilder_Add b field delta =
     b\<lparr>ub_ops := ub_ops b @
       [\<lparr>uo_name = resolve_attr_name (ub_type b) field, uo_val = delta, uo_add = True\<rparr>]\<rparr>"

definition UpdateBuilder_IfVersion ::
    "('c, 'w) update_builder \<Rightarrow> go_int \<Rightarrow> ('c, 'w) update_builder" where
  "UpdateBuilder_IfVersion b v = b\<lparr>ub_version := Some v\<rparr>"

text \<open>The update expression of \<open>Run\<close>: the audit fields, the queued operations in order, Version.\<close>

definition update_actions :: "int \<Rightarrow> string \<Rightarrow> update_op list \<Rightarrow> update_action list" where
  "update_actions now actor ops =
     [SetAction ''UpdatedAt'' (Some (TTime, VTime now)),
      SetAction ''UpdatedBy'' (Some (TString, VStr actor))] @
     map (\<lambda>op. if uo_add op then AddAction (uo_name op) (uo_val op)
               else SetAction (uo_name op) (uo_val op)) ops @
     [AddAction ''Version'' (Some (TInt, VInt 1))]"

definition UpdateBuilder_Run ::
    "'w lib \<Rightarrow> ('c, 'w) update_builder \<Rightarrow> 'c \<Rightarrow> ('w st, gval) act" where
  "UpdateBuilder_Run L b ctx s =
     (let t = ub_type b; d = ub_db b; i = ub_id b in
      continue (requiresDefaultKey t ''UpdateBuilder.Run'', s) (\<lambda>_ s.
      continue (zeroKeys L (mem s) t i, s) (\<lambda>(pk, sk) s.
      (case draw (db_clock d) s of (now, s) \<Rightarrow>
      continue
        (wrap_fail (''godynamo: building update expression for '' @ id_text L t i)
          (build_expr L (no_parts
            \<lparr>ex_update := Some (update_actions now (db_actor d ctx) (ub_ops b)),
             ex_condition := map_option version_equals (ub_version b)\<rparr>)), s) (\<lambda>ex s.
      continue
        (map_fail (\<lambda>e. asOptimisticLockErr L e ''update'' t i)
          (api (UpdateItem (db_client d))
            \<lparr>ui_table = db_table d, ui_key = itemKey pk sk, ui_update = ex_update ex,
             ui_condition = ex_condition ex, ui_return_all_new = True\<rparr> s)) (\<lambda>out s.
        (wrap_fail (''godynamo: unmarshal '' @ id_text L t i) (unmarshal_fresh L t out), s)))))))"

section \<open>Lemmas\<close>

lemma draw_mem: "draw f s = (x, s') \<Longrightarrow> mem s' = mem s"
  by (metis mem_draw snd_conv)

lemma st_updates_commute: "s\<lparr>world := w, mem := h\<rparr> = s\<lparr>mem := h, world := w\<rparr>"
  by (cases s) simp

text \<open>The Model as the two branches leave it.\<close>

definition stamped_create :: "int \<Rightarrow> string \<Rightarrow> uuid \<Rightarrow> string \<Rightarrow> model" where
  "stamped_create now actor i tn =
     \<lparr>m_ID = i, m_Type = tn, m_CreatedAt = now, m_CreatedBy = actor, m_UpdatedAt = now,
      m_UpdatedBy = actor, m_Version = 1\<rparr>"

definition stamped_update :: "int \<Rightarrow> string \<Rightarrow> model \<Rightarrow> model" where
  "stamped_update now actor m =
     m\<lparr>m_UpdatedAt := now, m_UpdatedBy := actor, m_Version := m_Version m + 1\<rparr>"

text \<open>An entity of type \<open>t\<close> at address \<open>a\<close> whose Model is \<open>m\<close>.\<close>

definition entity :: "heap \<Rightarrow> gtype \<Rightarrow> addr \<Rightarrow> model \<Rightarrow> bool" where
  "entity h t a m \<longleftrightarrow> has_type (h a) t \<and> (\<exists>mt. parse_tags t = Ok mt) \<and> model_at t (h a) = Some m"

lemma entity_path: "entity h t a m \<Longrightarrow> \<exists>p. model_path t = Some p"
  by (auto simp: entity_def dest: parse_tags_model_path)

lemma model_path_struct: "model_path t = Some p \<Longrightarrow> struct_fields t \<noteq> None"
  by (auto simp: model_path_def field_by_name_def split: option.splits)

lemma modelFieldOf_entity: "entity h t a m \<Longrightarrow> modelFieldOf h (ptr t a) = Ok (t, a, m)"
  using model_path_struct by (auto simp: modelFieldOf_def entity_def dest: entity_path[OF entity_def[THEN iffD2]]
      parse_tags_model_path)

lemma SetType_entity:
  "model_path t = Some p \<Longrightarrow>
   SetType (ptr t a) h = (Ok (), h(a := with_model t (\<lambda>m. m\<lparr>m_Type := type_name t\<rparr>) (h a)))"
  using model_path_struct[of t p] by (simp add: SetType_def)

lemma mem_on_model [simp]: "mem (on_model t a f s) = (mem s)(a := with_model t f (mem s a))"
  by (simp add: on_model_def)

lemma world_on_model [simp]: "world (on_model t a f s) = world s"
  by (simp add: on_model_def)

text \<open>The effect of the stamping on the heap: one entity's Model, nothing else.\<close>

definition stamped :: "heap \<Rightarrow> gtype \<Rightarrow> addr \<Rightarrow> model \<Rightarrow> heap" where
  "stamped h t a m = h(a := with_model t (\<lambda>_. m) (h a))"

lemma entity_stamped: "entity h t a m \<Longrightarrow> entity (stamped h t a m') t a m'"
  by (auto simp: entity_def stamped_def with_model_typed model_at_with_model
      dest!: parse_tags_model_path)

lemma stamped_frame:
  assumes "model_path t = Some p"
  shows "b \<noteq> a \<Longrightarrow> stamped h t a m b = h b"
    and "apart p q \<Longrightarrow> get_at (stamped h t a m a) q = get_at (h a) q"
  using assms by (auto simp: stamped_def with_model_frame)

lemma with_model_const:
  assumes "model_at t v = Some m" and "f m = g m"
  shows "with_model t f v = with_model t g v"
  using assms by (auto simp: with_model_def split: option.splits)

lemma stamp_create:
  assumes e: "entity (mem s) t a m" and new: "m_CreatedAt m = 0"
    and clock: "draw (db_clock d) s = (now, s1)"
    and uid: "(if m_ID m = 0 then draw (lib_uuid_new L) s1 else (m_ID m, s1)) = (i, s2)"
  shows "stamp L d ctx t a m s =
    (Ok (True, AttrNotExists ''PK''),
     s2\<lparr>mem := stamped (mem s) t a (stamped_create now (db_actor d ctx) i (type_name t))\<rparr>)"
proof -
  obtain p where p: "model_path t = Some p" using entity_path[OF e] by blast
  have typed: "has_type (mem s a) t" and at: "model_at t (mem s a) = Some m"
    using e by (auto simp: entity_def)
  have "mem s1 = mem s" using draw_mem[OF clock] .
  moreover have "mem s2 = mem s1" using uid draw_mem by (auto split: if_splits)
  ultimately have mem2: "mem s2 = mem s" by simp
  let ?f = "\<lambda>m. m\<lparr>m_ID := i\<rparr>" and ?g = "\<lambda>m. m\<lparr>m_Type := type_name t\<rparr>"
    and ?k = "\<lambda>m. m\<lparr>m_CreatedAt := now, m_CreatedBy := db_actor d ctx, m_UpdatedAt := now,
      m_UpdatedBy := db_actor d ctx, m_Version := 1\<rparr>"
  have "with_model t ?k (with_model t ?g (with_model t ?f (mem s a))) =
      with_model t (?k \<circ> (?g \<circ> ?f)) (mem s a)"
    using with_model_twice[OF p] typed with_model_typed[OF typed] by simp
  also have "\<dots> = with_model t (\<lambda>_. stamped_create now (db_actor d ctx) i (type_name t)) (mem s a)"
    by (rule with_model_const[OF at]) (simp add: stamped_create_def)
  finally show ?thesis
    by (simp add: stamp_def clock uid new in_heap_def SetType_entity[OF p] mem2 stamped_def
        on_model_def Let_def)
qed

lemma stamp_update:
  assumes e: "entity (mem s) t a m" and old: "m_CreatedAt m \<noteq> 0"
    and clock: "draw (db_clock d) s = (now, s1)"
  shows "stamp L d ctx t a m s =
    (Ok (False, version_equals (m_Version m)),
     s1\<lparr>mem := stamped (mem s) t a (stamped_update now (db_actor d ctx) m)\<rparr>)"
proof -
  have at: "model_at t (mem s a) = Some m" using e by (auto simp: entity_def)
  have "mem s1 = mem s" using draw_mem[OF clock] .
  moreover have "with_model t (\<lambda>m'. m'\<lparr>m_UpdatedAt := now, m_UpdatedBy := db_actor d ctx,
      m_Version := m_Version m + 1\<rparr>) (mem s a) =
      with_model t (\<lambda>_. stamped_update now (db_actor d ctx) m) (mem s a)"
    by (rule with_model_const[OF at]) (simp add: stamped_update_def)
  ultimately show ?thesis
    by (simp add: stamp_def clock old stamped_def on_model_def Let_def)
qed

text \<open>Both branches at once: the new Model, the condition, and the state of the world.\<close>

lemma stampAndMarshal_entity:
  assumes e: "entity (mem s) t a m"
  shows "\<exists>m' w. stampAndMarshal L d ctx (ptr t a) s =
      (map_ok (\<lambda>av. (av, if m_CreatedAt m = 0 then AttrNotExists ''PK'' else version_equals (m_Version m)))
        (marshal_with_keys L d (stamped (mem s) t a m') t a (m_ID m) (m_CreatedAt m = 0)),
       s\<lparr>mem := stamped (mem s) t a m', world := w\<rparr>) \<and>
    (if m_CreatedAt m = 0
     then \<exists>i. m' = stamped_create (fst (db_clock d (world s))) (db_actor d ctx) i (type_name t) \<and>
       i = (if m_ID m = 0 then fst (lib_uuid_new L (snd (db_clock d (world s)))) else m_ID m)
     else m' = stamped_update (fst (db_clock d (world s))) (db_actor d ctx) m)"
proof -
  obtain now w1 where c: "db_clock d (world s) = (now, w1)" by fastforce
  obtain j w2 where u: "lib_uuid_new L w1 = (j, w2)" by fastforce
  have clock: "draw (db_clock d) s = (now, s\<lparr>world := w1\<rparr>)" by (simp add: draw_def c)
  show ?thesis
  proof (cases "m_CreatedAt m = 0")
    case True
    have uid: "(if m_ID m = 0 then draw (lib_uuid_new L) (s\<lparr>world := w1\<rparr>) else (m_ID m, s\<lparr>world := w1\<rparr>)) =
        (if m_ID m = 0 then j else m_ID m, s\<lparr>world := if m_ID m = 0 then w2 else w1\<rparr>)"
      by (simp add: draw_def u)
    show ?thesis
      unfolding stampAndMarshal_def type_elem_ptr and_then.simps modelFieldOf_entity[OF e]
      using True by (auto simp: stamp_create[OF e True clock uid] c u st_updates_commute)
  next
    case False
    show ?thesis
      unfolding stampAndMarshal_def type_elem_ptr and_then.simps modelFieldOf_entity[OF e]
      using False by (auto simp: stamp_update[OF e False clock] c st_updates_commute)
  qed
qed

lemma marshal_with_keys_Ok:
  assumes "marshal_with_keys L d h t a i new = Ok av"
  shows "\<exists>base pk sk. marshalItem L h (ptr t a) = Ok base \<and> Keys L h (ptr t a) = Ok (pk, sk) \<and>
    av = (let av' = fmupd ''SK'' (AVS sk) (fmupd ''PK'' (AVS pk) base)
          in if new then fmupd (db_gsi1PKAttr d) (AVS (type_name t)) av' else av')"
  using assms by (auto simp: marshal_with_keys_def Keys_def Let_def)

text \<open>
  A type whose key fields \<open>ID\<close> is the one promoted from the embedded Model.
\<close>

definition id_promoted :: "gtype \<Rightarrow> bool" where
  "id_promoted t \<longleftrightarrow> (\<exists>p f. model_path t = Some p \<and> field_by_name t ''ID'' = Some (p @ [0], f) \<and> f_type f = TUUID)"

lemma id_of_entity:
  assumes "id_promoted t" and "has_type v t" and "model_at t v = Some m"
  shows "value_field t v ''ID'' = Some (TUUID, VUUID (m_ID m))"
proof -
  obtain p f where p: "model_path t = Some p" "field_by_name t ''ID'' = Some (p @ [0], f)" "f_type f = TUUID"
    using assms(1) by (auto simp: id_promoted_def)
  have "get_at v p = Some (val_of_model m)"
    using model_at_typed[OF p(1) assms(2)] assms(3) by auto
  with p show ?thesis by (simp add: value_field_def get_at_append val_of_model_def)
qed

lemma zeroKeys_entity:
  assumes "parse_tags t = Ok mt" and "pkFields mt = []" and "skFields mt = []"
    and "id_promoted t" and "entity h t a m"
  shows "zeroKeys L h' t (m_ID m) = Keys L h (ptr t a)"
proof -
  obtain p where p: "model_path t = Some p" using entity_path[OF assms(5)] by blast
  let ?z = "with_model t (\<lambda>m'. m'\<lparr>m_ID := m_ID m\<rparr>) (zero_value t)"
  obtain z where z: "model_at t (zero_value t) = Some z"
    using model_at_typed[OF p zero_value_typed(1)] by blast
  have "model_at t ?z = Some (z\<lparr>m_ID := m_ID m\<rparr>)"
    by (rule model_at_with_model[OF p zero_value_typed(1) z])
  from id_of_entity[OF assms(4) with_model_typed[OF zero_value_typed(1)] this]
  have "value_field t ?z ''ID'' = Some (TUUID, VUUID (m_ID m))" by simp
  moreover have "value_field t (h a) ''ID'' = Some (TUUID, VUUID (m_ID m))"
    using assms(4,5) by (auto simp: entity_def intro: id_of_entity)
  ultimately show ?thesis
    using p by (simp add: zeroKeys_def Keys_def key_of_pointer[OF assms(1)] pk_names_def sk_names_def
        assms(2,3) buildKey_def)
qed

section \<open>Properties\<close>

text \<open>
  C24: Writing a new entity (zero \<open>CreatedAt\<close>) stamps its Model in place: a generated ID
  only if it had none, the type's name, creation and update audit fields from one reading of the
  clock and the actor, version 1. The entity stays well-typed, and no other field of it and no other
  object changes.
\<close>

theorem stamp_new_entity:
  assumes "entity (mem s) t a m" and "m_CreatedAt m = 0" and "model_path t = Some p"
    and "s' = snd (stampAndMarshal L d ctx (ptr t a) s)"
  shows "(\<exists>i. entity (mem s') t a
        (stamped_create (fst (db_clock d (world s))) (db_actor d ctx) i (type_name t)) \<and>
      i = (if m_ID m = 0 then fst (lib_uuid_new L (snd (db_clock d (world s)))) else m_ID m)) \<and>
    (\<forall>b. b \<noteq> a \<longrightarrow> mem s' b = mem s b) \<and>
    (\<forall>q. apart p q \<longrightarrow> get_at (mem s' a) q = get_at (mem s a) q)"
  using stampAndMarshal_entity[OF assms(1), of L d ctx] assms(2,4) entity_stamped[OF assms(1)]
    stamped_frame[OF assms(3)]
  by auto

text \<open>
  C25: Writing an existing entity keeps its identity (ID, type, creation fields), takes the update
  fields from the clock and the actor, and increments the version, wrapping at 64 bits; nothing else
  changes.
\<close>

theorem stamp_existing_entity:
  assumes "entity (mem s) t a m" and "m_CreatedAt m \<noteq> 0" and "model_path t = Some p"
    and "s' = snd (stampAndMarshal L d ctx (ptr t a) s)"
  shows "(\<exists>m'. entity (mem s') t a m' \<and>
      m_ID m' = m_ID m \<and> m_Type m' = m_Type m \<and> m_CreatedAt m' = m_CreatedAt m \<and>
      m_CreatedBy m' = m_CreatedBy m \<and> m_UpdatedAt m' = fst (db_clock d (world s)) \<and>
      m_UpdatedBy m' = db_actor d ctx \<and>
      sint (m_Version m') = (if sint (m_Version m) = 2 ^ 63 - 1 then - (2 ^ 63) else sint (m_Version m) + 1)) \<and>
    (\<forall>b. b \<noteq> a \<longrightarrow> mem s' b = mem s b) \<and>
    (\<forall>q. apart p q \<longrightarrow> get_at (mem s' a) q = get_at (mem s a) q)"
proof -
  let ?m = "stamped_update (fst (db_clock d (world s))) (db_actor d ctx) m"
  have mem: "mem s' = stamped (mem s) t a ?m"
    using stampAndMarshal_entity[OF assms(1), of L d ctx] assms(2,4) by auto
  have "entity (mem s') t a ?m" unfolding mem by (rule entity_stamped[OF assms(1)])
  then show ?thesis
    using stamped_frame[OF assms(3)] unfolding mem
    by (intro conjI exI[of _ ?m]) (simp_all add: stamped_update_def sint_succ)
qed

text \<open>
  C26: The item a write sends carries the entity's own keys, computed after the stamping, and the
  condition of its branch: a create is conditioned on the key being free and carries the type in the
  index attribute; an update is conditioned on the version before the call.
\<close>

theorem written_item_keys:
  assumes "entity (mem s) t a m" and "db_gsi1PKAttr d \<notin> {''PK'', ''SK''}"
    and "stampAndMarshal L d ctx (ptr t a) s = (Ok (av, cond), s')"
  shows "\<exists>pk sk. Keys L (mem s') (ptr t a) = Ok (pk, sk) \<and>
    fmlookup av ''PK'' = Some (AVS pk) \<and> fmlookup av ''SK'' = Some (AVS sk) \<and>
    (if m_CreatedAt m = 0
     then cond = AttrNotExists ''PK'' \<and> fmlookup av (db_gsi1PKAttr d) = Some (AVS (type_name t))
     else cond = version_equals (m_Version m))"
  using stampAndMarshal_entity[OF assms(1), of L d ctx] assms(2,3)
  by (auto simp: Let_def dest!: marshal_with_keys_Ok)

text \<open>
  A re-written entity loses its index attribute: the item of an update carries the attribute
  \<open>db.gsi1PKAttr\<close> only if the entity itself marshals one, and \<open>PutItem\<close> replaces the
  whole stored item.
\<close>

theorem rewritten_item_has_no_index_key:
  assumes "entity (mem s) t a m" and "m_CreatedAt m \<noteq> 0"
    and "db_gsi1PKAttr d \<notin> {''PK'', ''SK''}"
    and "stampAndMarshal L d ctx (ptr t a) s = (Ok (av, cond), s')"
    and "\<And>base. marshalItem L (mem s') (ptr t a) = Ok base \<Longrightarrow> fmlookup base (db_gsi1PKAttr d) = None"
  shows "fmlookup av (db_gsi1PKAttr d) = None"
proof -
  obtain h where "marshal_with_keys L d h t a (m_ID m) False = Ok av" and "h = mem s'"
    using stampAndMarshal_entity[OF assms(1), of L d ctx] assms(2,4) by auto
  with marshal_with_keys_Ok[of L d h t a "m_ID m" False av] assms(3,5) show ?thesis
    by (auto simp: Let_def)
qed

text \<open>
  C27: A create whose call failed cannot be repeated with the same value: the entity keeps the
  stamp, so the next attempt is conditioned on a stored version 1 instead of on a free key, and writes
  version 2.
\<close>

theorem failed_create_retries_as_update:
  assumes "entity (mem s) t a m" and "m_CreatedAt m = 0" and "fst (db_clock d (world s)) \<noteq> 0"
    and "s1 = snd (stampAndMarshal L d ctx (ptr t a) s)"
    and "mem s1 = mem s2"
    and "stampAndMarshal L d ctx (ptr t a) s2 = (Ok (av, cond), s3)"
  shows "cond = version_equals 1 \<and> (\<exists>m'. entity (mem s3) t a m' \<and> m_Version m' = 2)"
proof -
  let ?now = "fst (db_clock d (world s))"
  obtain i where "mem s1 = stamped (mem s) t a (stamped_create ?now (db_actor d ctx) i (type_name t))"
    using stampAndMarshal_entity[OF assms(1), of L d ctx] assms(2,4) by auto
  then have e: "entity (mem s2) t a (stamped_create ?now (db_actor d ctx) i (type_name t))"
    using entity_stamped[OF assms(1)] assms(5) by simp
  let ?m = "stamped_update (fst (db_clock d (world s2))) (db_actor d ctx)
    (stamped_create ?now (db_actor d ctx) i (type_name t))"
  have "mem s3 = stamped (mem s2) t a ?m" and "cond = version_equals 1"
    using stampAndMarshal_entity[OF e, of L d ctx] assms(3,6) by (auto simp: stamped_create_def)
  moreover have "m_Version ?m = 2" by (simp add: stamped_update_def stamped_create_def)
  ultimately show ?thesis using entity_stamped[OF e, of ?m] by auto
qed

text \<open>
  C37: The functions that compute a key from an ID alone refuse a type with a key clause: they
  return an error that wraps \<open>ErrNonDefaultKey\<close>, and neither call the client nor change
  anything.
\<close>

theorem non_default_keys_refused:
  assumes "parse_tags t = Ok mt" and "pkFields mt \<noteq> [] \<or> skFields mt \<noteq> []"
  shows "(\<exists>e. Get L d t i s = (Fail e, s) \<and> errors_is e ErrNonDefaultKey) \<and>
    (\<exists>e. Delete L d t i s = (Fail e, s) \<and> errors_is e ErrNonDefaultKey) \<and>
    (ub_type b = t \<longrightarrow> (\<exists>e. UpdateBuilder_Run L b ctx s = (Fail e, s) \<and> errors_is e ErrNonDefaultKey))"
  using assms by (auto simp: Get_def Delete_def UpdateBuilder_Run_def requiresDefaultKey_def Let_def)

text \<open>
  For every other type the key computed from the ID is the key the entity is stored under,
  whatever its other fields hold.
\<close>

theorem zero_keys_are_entity_keys:
  assumes "parse_tags t = Ok mt" and "pkFields mt = []" and "skFields mt = []"
    and "id_promoted t" and "entity h t a m"
  shows "zeroKeys L h' t (m_ID m) = Keys L h (ptr t a)"
  using assms by (rule zeroKeys_entity)

section \<open>A concrete entity\<close>

text \<open>The witnesses write tasks through the in-memory client, with a counting clock.\<close>

definition task_st :: "model \<Rightarrow> string \<Rightarrow> sworld \<Rightarrow> sworld st" where
  "task_st m n w = \<lparr>mem = (\<lambda>_. task_value m n), world = w\<rparr>"

definition task_item :: "bool \<Rightarrow> model \<Rightarrow> string \<Rightarrow> item" where
  "task_item new m n =
     (let k = AVS (''Task#'' @ nat_string (unat (m_ID m)));
          av = fmupd ''SK'' k (fmupd ''PK'' k
            (fmupd ''Notes'' (AVB (0x1f # 0x8b # map (\<lambda>c. word_of_nat (of_char c)) n))
              (marshal_leaves (task_value m n) (type_leaves task_type))))
      in if new then fmupd ''GSI1PK'' (AVS ''Task'') av else av)"

lemma task_with_model [simp]: "with_model task_type f (task_value m n) = task_value (f m) n"
  by (simp add: with_model_def) (simp add: task_value_def)

lemma task_entity: "h a = task_value m n \<Longrightarrow> entity h task_type a m"
  by (auto simp: entity_def parse_task)

lemma task_keys:
  assumes "h a = task_value m n"
  shows "PK sample_lib h (ptr task_type a) = Ok (''Task#'' @ nat_string (unat (m_ID m)))"
    and "SK sample_lib h (ptr task_type a) = Ok (''Task#'' @ nat_string (unat (m_ID m)))"
  using assms by (simp_all add: key_of_pointer[OF parse_task] buildKey_def pk_names_def sk_names_def
      sample_fields)

lemma task_marshal_with_keys:
  assumes "h a = task_value m n"
  shows "marshal_with_keys sample_lib sample_db h task_type a i new = Ok (task_item new m n)"
proof -
  have "marshalItem sample_lib h (ptr task_type a) =
     Ok (fmupd ''Notes'' (AVB (0x1f # 0x8b # map (\<lambda>c. word_of_nat (of_char c)) n))
       (marshal_leaves (task_value m n) (type_leaves task_type)))"
    by (simp add: marshalItem_def structValueOf_simps[OF parse_task] parse_task sample_fields
        compressJSON_def task_notes_attr assms)
  then show ?thesis by (simp add: marshal_with_keys_def task_keys[of h, OF assms] task_item_def Let_def)
qed

lemma task_create:
  assumes "mem s a = task_value m n" and "m_CreatedAt m = 0" and "m_ID m = 0"
  shows "stampAndMarshal sample_lib sample_db () (ptr task_type a) s =
    (let w = world s; m' = stamped_create (sw_time w) [] (sw_fresh w) ''Task''
     in (Ok (task_item True m' n, AttrNotExists ''PK''),
         s\<lparr>mem := (mem s)(a := task_value m' n),
           world := w\<lparr>sw_time := sw_time w + 1, sw_fresh := sw_fresh w + 1\<rparr>\<rparr>))"
  unfolding stampAndMarshal_def type_elem_ptr and_then.simps modelFieldOf_entity[OF task_entity[of "mem s", OF assms(1)]]
  using assms
  by (simp add: stamp_create[OF task_entity[of "mem s", OF assms(1)] assms(2)] draw_def Let_def
      task_marshal_with_keys stamped_def)

lemma task_update:
  assumes "mem s a = task_value m n" and "m_CreatedAt m \<noteq> 0"
  shows "stampAndMarshal sample_lib sample_db () (ptr task_type a) s =
    (let w = world s; m' = stamped_update (sw_time w) [] m
     in (Ok (task_item False m' n, version_equals (m_Version m)),
         s\<lparr>mem := (mem s)(a := task_value m' n), world := w\<lparr>sw_time := sw_time w + 1\<rparr>\<rparr>))"
  unfolding stampAndMarshal_def type_elem_ptr and_then.simps modelFieldOf_entity[OF task_entity[of "mem s", OF assms(1)]]
  using assms
  by (simp add: stamp_update[OF task_entity[of "mem s", OF assms(1)] assms(2)] draw_def Let_def
      task_marshal_with_keys stamped_def)

lemma id_promoted_task: "id_promoted task_type"
  by (simp add: id_promoted_def task_fields)

theorem stamp_new_entity_witness:
  "\<exists>i. entity (mem (snd (stampAndMarshal sample_lib sample_db () (ptr task_type 0)
      (task_st zero_model ''n'' empty_world)))) task_type 0 (stamped_create 1000 [] i ''Task'') \<and> i = 7"
  using stamp_new_entity[OF task_entity[of "mem (task_st zero_model ''n'' empty_world)"] _ task_model(1) refl,
      of 0 zero_model "''n''" sample_lib sample_db "()"]
  by (simp add: task_st_def zero_model_def empty_world_def)

definition saved_model :: model where
  "saved_model = stamped_create 900 ''me'' 5 ''Task''"

lemma saved_model_fields [simp]:
  "m_ID saved_model = 5" "m_CreatedAt saved_model = 900" "m_Version saved_model = 1"
  "m_CreatedBy saved_model = ''me''"
  by (simp_all add: saved_model_def stamped_create_def)

theorem stamp_existing_entity_witness:
  "\<exists>m'. entity (mem (snd (stampAndMarshal sample_lib sample_db () (ptr task_type 0)
      (task_st saved_model ''n'' empty_world)))) task_type 0 m' \<and>
    m_ID m' = 5 \<and> m_CreatedBy m' = ''me'' \<and> sint (m_Version m') = 2"
  using stamp_existing_entity[OF task_entity[of "mem (task_st saved_model ''n'' empty_world)"] _
      task_model(1) refl, of 0 saved_model "''n''" sample_lib sample_db "()"]
  by (auto simp: task_st_def)

lemma task_st_create:
  "stampAndMarshal sample_lib sample_db () (ptr task_type 0) (task_st zero_model n w) =
    (let m' = stamped_create (sw_time w) [] (sw_fresh w) ''Task''
     in (Ok (task_item True m' n, AttrNotExists ''PK''),
         \<lparr>mem = (\<lambda>_. task_value zero_model n)(0 := task_value m' n),
           world = w\<lparr>sw_time := sw_time w + 1, sw_fresh := sw_fresh w + 1\<rparr>\<rparr>))"
  by (subst task_create[of _ _ zero_model n]) (simp_all add: task_st_def Let_def, simp_all add: zero_model_def)

lemma task_st_update:
  "stampAndMarshal sample_lib sample_db () (ptr task_type 0) (task_st saved_model n w) =
    (let m' = stamped_update (sw_time w) [] saved_model
     in (Ok (task_item False m' n, version_equals 1),
         \<lparr>mem = (\<lambda>_. task_value saved_model n)(0 := task_value m' n),
           world = w\<lparr>sw_time := sw_time w + 1\<rparr>\<rparr>))"
  by (subst task_update[of _ _ saved_model n]) (simp_all add: task_st_def Let_def)

theorem written_item_keys_witness:
  "\<exists>pk sk av. fmlookup av ''PK'' = Some (AVS pk) \<and> fmlookup av ''SK'' = Some (AVS sk) \<and>
    fmlookup av ''GSI1PK'' = Some (AVS ''Task'') \<and>
    fst (stampAndMarshal sample_lib sample_db () (ptr task_type 0) (task_st zero_model ''n'' empty_world)) =
      Ok (av, AttrNotExists ''PK'')"
  using written_item_keys[OF task_entity[of "mem (task_st zero_model ''n'' empty_world)" 0 zero_model "''n''"] _
      task_st_create[of "''n''" empty_world, unfolded Let_def]]
    task_st_create[of "''n''" empty_world]
  by (auto simp: task_st_def zero_model_def Let_def)

lemma task_leaf_names:
  "fmlookup (marshal_leaves (task_value m n) (type_leaves task_type)) ''GSI1PK'' = None"
  by (simp add: type_leaves_def task_type_def model_type_def task_value_def val_of_model_def)

theorem rewritten_item_has_no_index_key_witness:
  "\<exists>av c s'. stampAndMarshal sample_lib sample_db () (ptr task_type 0) (task_st saved_model ''n'' empty_world) =
      (Ok (av, c), s') \<and> fmlookup av ''GSI1PK'' = None"
proof -
  let ?s = "task_st saved_model ''n'' empty_world"
  obtain av c s' where r: "stampAndMarshal sample_lib sample_db () (ptr task_type 0) ?s = (Ok (av, c), s')"
    and h: "mem s' 0 = task_value (stamped_update 1000 [] saved_model) ''n''"
    by (simp add: task_st_update Let_def empty_world_def)
  have "fmlookup base ''GSI1PK'' = None"
    if "marshalItem sample_lib (mem s') (ptr task_type 0) = Ok base" for base
    using that by (auto simp: marshalItem_def structValueOf_simps[OF parse_task] parse_task sample_fields
        compressJSON_def task_notes_attr h task_leaf_names)
  then show ?thesis
    using rewritten_item_has_no_index_key[OF task_entity[of "mem ?s" 0 saved_model "''n''"] _ _ r] r
    by (auto simp: task_st_def)
qed

theorem failed_create_retries_as_update_witness:
  "\<exists>av s3 m'. stampAndMarshal sample_lib sample_db () (ptr task_type 0)
      (snd (stampAndMarshal sample_lib sample_db () (ptr task_type 0) (task_st zero_model ''n'' empty_world))) =
      (Ok (av, version_equals 1), s3) \<and> entity (mem s3) task_type 0 m' \<and> m_Version m' = 2"
proof -
  let ?s = "task_st zero_model ''n'' empty_world"
  let ?s1 = "snd (stampAndMarshal sample_lib sample_db () (ptr task_type 0) ?s)"
  let ?m = "stamped_create 1000 [] 7 ''Task''"
  have h: "mem ?s1 0 = task_value ?m ''n''" by (simp add: task_st_create Let_def empty_world_def)
  have "m_CreatedAt ?m \<noteq> 0" by (simp add: stamped_create_def)
  from task_update[OF h this] obtain av c s3 where
    r: "stampAndMarshal sample_lib sample_db () (ptr task_type 0) ?s1 = (Ok (av, c), s3)"
    unfolding Let_def by blast
  have "fst (db_clock sample_db (world ?s)) \<noteq> 0" by (simp add: task_st_def empty_world_def)
  from failed_create_retries_as_update[OF task_entity[of "mem ?s" 0 zero_model "''n''"] _ this refl refl r]
  show ?thesis using r by (auto simp: task_st_def zero_model_def)
qed

theorem non_default_keys_refused_witness:
  "\<forall>s. \<exists>e. Get sample_lib sample_db order_type 5 s = (Fail e, s) \<and> errors_is e ErrNonDefaultKey"
proof
  fix s
  show "\<exists>e. Get sample_lib sample_db order_type 5 s = (Fail e, s) \<and> errors_is e ErrNonDefaultKey"
    by (rule non_default_keys_refused[OF parse_order, THEN conjunct1]) simp
qed

theorem zero_keys_are_entity_keys_witness:
  "zeroKeys sample_lib (\<lambda>_. task_value saved_model ''x'') task_type 5 =
     Keys sample_lib (\<lambda>_. task_value saved_model ''x'') (ptr task_type 0)"
  using zero_keys_are_entity_keys[OF parse_task _ _ id_promoted_task
      task_entity[of "\<lambda>_. task_value saved_model ''x''" 0 saved_model "''x''"], of sample_lib]
  by simp

end
