(* ===== verification/Table.thy ===== *)
theory Table
  imports Crud
begin

text \<open>
  What \<open>Put\<close> and \<open>Get\<close> achieve on a table that behaves as DynamoDB documents it: a
  conditional \<open>PutItem\<close> tests its condition on the current item and replaces the whole item in one
  atomic step; \<open>GetItem\<close>, which the library calls without \<open>ConsistentRead\<close>, is eventually
  consistent and may show an older version. The table is an abstract view of the outside world.
\<close>

section \<open>The documented table\<close>

type_synonym table_key = "string \<times> string"

definition primary_key :: "item \<Rightarrow> table_key option" where
  "primary_key i =
     (case fmlookup i ''PK'' of
        Some (AVS p) \<Rightarrow> (case fmlookup i ''SK'' of Some (AVS q) \<Rightarrow> Some (p, q) | _ \<Rightarrow> None)
      | _ \<Rightarrow> None)"

text \<open>
  \<open>view w k\<close> is the item stored under the key \<open>k\<close> in the world \<open>w\<close>. A call that reports
  neither success nor a failed condition may or may not have written; one whose condition is false has not.
\<close>

definition table_law ::
    "'w client \<Rightarrow> string \<Rightarrow> ('w \<Rightarrow> table_key \<Rightarrow> item option) \<Rightarrow> (condition \<Rightarrow> item option \<Rightarrow> bool) \<Rightarrow> bool" where
  "table_law C tbl view holds \<longleftrightarrow>
     (\<forall>av c w k. primary_key av = Some k \<longrightarrow>
        (case PutItem C \<lparr>pi_table = tbl, pi_item = av, pi_condition = Some c\<rparr> w of
           (Inr _, w') \<Rightarrow> holds c (view w k) \<and> view w' = (view w)(k := Some av)
         | (Inl e, w') \<Rightarrow>
             (\<not> holds c (view w k) \<longrightarrow> view w' = view w) \<and>
             (as_cond_check_failed e \<noteq> None \<longrightarrow> \<not> holds c (view w k))))"

text \<open>
  Reads: \<open>versions w k\<close> are the versions of the key \<open>k\<close> (\<open>None\<close>: no item) that some replica
  still holds and an eventually consistent read may show. A successful write adds the version that it
  writes to those of its key, and nothing else; a read shows one of them. When all replicas have caught up,
  the current version is the only one.
\<close>

definition read_law ::
    "'w client \<Rightarrow> string \<Rightarrow> ('w \<Rightarrow> table_key \<Rightarrow> item option set) \<Rightarrow> bool" where
  "read_law C tbl versions \<longleftrightarrow>
     (\<forall>av c w w' k. primary_key av = Some k \<longrightarrow>
        PutItem C \<lparr>pi_table = tbl, pi_item = av, pi_condition = Some c\<rparr> w = (Inr (), w') \<longrightarrow>
        versions w' k \<subseteq> insert (Some av) (versions w k)) \<and>
     (\<forall>key w w' k. primary_key key = Some k \<longrightarrow>
        DeleteItem C \<lparr>ki_table = tbl, ki_key = key\<rparr> w = (Inr (), w') \<longrightarrow>
        versions w' k \<subseteq> insert None (versions w k)) \<and>
     (\<forall>key w out w' k. primary_key key = Some k \<longrightarrow>
        GetItem C \<lparr>ki_table = tbl, ki_key = key\<rparr> w = (Inr out, w') \<longrightarrow>
        (\<exists>v\<in>versions w k. out = (case v of None \<Rightarrow> fmempty | Some it \<Rightarrow> it)))"

text \<open>The two conditions of the library; \<open>num\<close> is the attribute of a version number.\<close>

definition condition_law :: "(go_int \<Rightarrow> attr_val) \<Rightarrow> (condition \<Rightarrow> item option \<Rightarrow> bool) \<Rightarrow> bool" where
  "condition_law num holds \<longleftrightarrow> inj num \<and>
     (\<forall>n it. holds (AttrNotExists n) it \<longleftrightarrow> (\<forall>i. it = Some i \<longrightarrow> fmlookup i n = None)) \<and>
     (\<forall>v it. holds (version_equals v) it \<longleftrightarrow> (\<exists>i. it = Some i \<and> fmlookup i ''Version'' = Some (num v)))"

text \<open>\<open>MarshalMap\<close> writes the promoted \<open>Version\<close>.\<close>

definition version_law :: "'w lib \<Rightarrow> gtype \<Rightarrow> (go_int \<Rightarrow> attr_val) \<Rightarrow> bool" where
  "version_law L t num \<longleftrightarrow>
     (\<forall>h a m base. entity h t a m \<longrightarrow> marshalItem L h (ptr t a) = Ok base \<longrightarrow>
        fmlookup base ''Version'' = Some (num (m_Version m)))"

text \<open>Reading the clock and drawing an ID do not touch the table (what is seen of it by \<open>view\<close>).\<close>

definition quiet :: "'w lib \<Rightarrow> ('c, 'w) db \<Rightarrow> ('w \<Rightarrow> 'v) \<Rightarrow> bool" where
  "quiet L d view \<longleftrightarrow>
     (\<forall>w. view (snd (db_clock d w)) = view w \<and> view (snd (lib_uuid_new L w)) = view w)"

section \<open>Lemmas\<close>

lemma table_put:
  assumes "table_law C tbl view holds" and "primary_key av = Some k"
  shows "PutItem C \<lparr>pi_table = tbl, pi_item = av, pi_condition = Some c\<rparr> w = (Inr u, w') \<Longrightarrow>
      holds c (view w k) \<and> view w' = (view w)(k := Some av)"
    and "PutItem C \<lparr>pi_table = tbl, pi_item = av, pi_condition = Some c\<rparr> w = (Inl e, w') \<Longrightarrow>
      \<not> holds c (view w k) \<Longrightarrow> view w' = view w"
  using assms(1)[unfolded table_law_def, THEN spec, of av, THEN spec, of c, THEN spec, of w,
      THEN spec, of k, THEN mp, OF assms(2)]
  by simp_all

lemma read_put:
  assumes "read_law C tbl versions" and "primary_key av = Some k"
    and "PutItem C \<lparr>pi_table = tbl, pi_item = av, pi_condition = Some c\<rparr> w = (Inr (), w')"
  shows "versions w' k \<subseteq> insert (Some av) (versions w k)"
  using assms(1)[unfolded read_law_def, THEN conjunct1] assms(2,3) by blast

lemma read_delete:
  assumes "read_law C tbl versions" and "primary_key key = Some k"
    and "DeleteItem C \<lparr>ki_table = tbl, ki_key = key\<rparr> w = (Inr (), w')"
  shows "versions w' k \<subseteq> insert None (versions w k)"
  using assms(1)[unfolded read_law_def, THEN conjunct2, THEN conjunct1] assms(2,3) by blast

lemma read_get:
  assumes "read_law C tbl versions" and "primary_key key = Some k"
    and "GetItem C \<lparr>ki_table = tbl, ki_key = key\<rparr> w = (Inr out, w')"
  shows "\<exists>v\<in>versions w k. out = (case v of None \<Rightarrow> fmempty | Some it \<Rightarrow> it)"
  using assms(1)[unfolded read_law_def, THEN conjunct2, THEN conjunct2] assms(2,3) by blast

lemma primary_key_itemKey [simp]: "primary_key (itemKey p q) = Some (p, q)"
  by (simp add: primary_key_def itemKey_def)

lemma world_in_heap [simp]: "world (snd (in_heap f s)) = world s"
  by (simp add: in_heap_def split: prod.split)

lemma stamp_world:
  assumes "quiet L d view"
  shows "view (world (snd (stamp L d ctx t a m s))) = view (world s)"
proof -
  have q: "view (world (snd (draw (db_clock d) s))) = view (world s)"
      "view (world (snd (draw (lib_uuid_new L) s))) = view (world s)" for s
    using assms by (auto simp: quiet_def draw_def split: prod.splits) (metis snd_conv)+
  obtain now s1 where c: "draw (db_clock d) s = (now, s1)" by fastforce
  obtain i s2 where u: "(if m_ID m = 0 then draw (lib_uuid_new L) s1 else (m_ID m, s1)) = (i, s2)" by fastforce
  obtain r s3 where h: "in_heap (SetType (ptr t a)) (on_model t a (\<lambda>m. m\<lparr>m_ID := i\<rparr>) s2) = (r, s3)" by fastforce
  have "view (world s1) = view (world s)" "view (world s2) = view (world s1)"
    using q(1)[of s] q(2)[of s1] c u by (auto split: if_splits)
  moreover have "world s3 = world s2"
    using world_in_heap[of "SetType (ptr t a)" "on_model t a (\<lambda>m. m\<lparr>m_ID := i\<rparr>) s2"] h by simp
  ultimately show ?thesis by (cases r) (simp_all only: stamp_def c u h prod.case Let_def split: if_split, simp_all)
qed

lemma stampAndMarshal_world:
  assumes "quiet L d view"
  shows "view (world (snd (stampAndMarshal L d ctx x s))) = view (world s)"
proof (cases "and_then (type_elem x) (\<lambda>_. modelFieldOf (mem s) x)")
  case (Ok tam)
  obtain t a m where tam: "tam = (t, a, m)" by (cases tam)
  obtain r s1 where st: "stamp L d ctx t a m s = (r, s1)" by fastforce
  have "view (world s1) = view (world s)" using stamp_world[OF assms, of ctx t a m s] st by simp
  with st Ok tam show ?thesis by (cases r) (auto simp: stampAndMarshal_def)
qed (simp_all add: stampAndMarshal_def)

text \<open>Only the entity itself is stamped.\<close>

lemma stamp_frame: "b \<noteq> a \<Longrightarrow> mem (snd (stamp L d ctx t a m s)) b = mem s b"
proof -
  assume b: "b \<noteq> a"
  obtain now s1 where c: "draw (db_clock d) s = (now, s1)" by fastforce
  obtain i s2 where u: "(if m_ID m = 0 then draw (lib_uuid_new L) s1 else (m_ID m, s1)) = (i, s2)" by fastforce
  obtain r s3 where h: "in_heap (SetType (ptr t a)) (on_model t a (\<lambda>m. m\<lparr>m_ID := i\<rparr>) s2) = (r, s3)" by fastforce
  have "mem s1 = mem s" "mem s2 = mem s1" using c u by (auto dest: draw_mem split: if_splits)
  moreover have "mem s3 b = mem s2 b"
    using h b by (auto simp: in_heap_iff SetType_def split: if_splits)
  ultimately show ?thesis using b by (cases r) (simp_all only: stamp_def c u h prod.case Let_def split: if_split, simp_all)
qed

lemma stampAndMarshal_frame:
  assumes "\<And>t. x \<noteq> ptr t b"
  shows "mem (snd (stampAndMarshal L d ctx x s)) b = mem s b"
proof (cases "and_then (type_elem x) (\<lambda>_. modelFieldOf (mem s) x)")
  case (Ok tam)
  obtain t a m where tam: "tam = (t, a, m)" by (cases tam)
  then have "x = ptr t a" using Ok by (auto simp: modelFieldOf_def split: option.splits prod.splits gtype.splits gval.splits if_splits)
  then have b: "b \<noteq> a" using assms by blast
  obtain r s1 where st: "stamp L d ctx t a m s = (r, s1)" by fastforce
  have "mem s1 b = mem s b" using stamp_frame[OF b, of L d ctx t m s] st by simp
  with st Ok tam show ?thesis by (cases r) (auto simp: stampAndMarshal_def)
qed (simp_all add: stampAndMarshal_def)

lemma stamp_needs_no_client: "stampAndMarshal L (d\<lparr>db_client := c\<rparr>) = stampAndMarshal L d"
proof -
  have "marshal_with_keys L (d\<lparr>db_client := c\<rparr>) = marshal_with_keys L d"
    by (intro ext) (simp add: marshal_with_keys_def cong: if_cong)
  moreover have "stamp L (d\<lparr>db_client := c\<rparr>) = stamp L d" by (intro ext) (simp add: stamp_def cong: if_cong)
  ultimately show ?thesis by (intro ext) (simp add: stampAndMarshal_def)
qed

text \<open>A put of an entity, taken apart.\<close>

lemma Put_entity:
  assumes "entity (mem s) t a m"
  shows "Put L d t ctx (Some a) s = (r, s') \<Longrightarrow> r \<noteq> Ok () \<Longrightarrow>
      stampAndMarshal L d ctx (ptr t a) s = (Ok (av, cond), s1) \<Longrightarrow> lib_build_error L (no_parts\<lparr>ex_condition := Some cond\<rparr>) = None \<Longrightarrow>
      \<exists>e w. PutItem (db_client d) \<lparr>pi_table = db_table d, pi_item = av, pi_condition = Some cond\<rparr> (world s1) = (Inl e, w) \<and>
        s' = s1\<lparr>world := w\<rparr> \<and> (\<exists>m'. r = Fail (asOptimisticLockErr L e ''put'' t m'))"
    and "Put L d t ctx (Some a) s = (Ok (), s') \<Longrightarrow>
      \<exists>av cond s1 w. stampAndMarshal L d ctx (ptr t a) s = (Ok (av, cond), s1) \<and>
        PutItem (db_client d) \<lparr>pi_table = db_table d, pi_item = av, pi_condition = Some cond\<rparr> (world s1) = (Inr (), w) \<and>
        s' = s1\<lparr>world := w\<rparr>"
proof -
  have e': "\<exists>m'. entity (mem s1) t a m'" if "stampAndMarshal L d ctx (ptr t a) s = (r, s1)" for r s1
  proof -
    obtain m' w where "snd (stampAndMarshal L d ctx (ptr t a) s) = s\<lparr>mem := stamped (mem s) t a m', world := w\<rparr>"
      using stampAndMarshal_entity[OF assms, of L d ctx] by (metis snd_conv)
    then have "mem s1 = stamped (mem s) t a m'" using that by simp
    with entity_stamped[OF assms] show ?thesis by auto
  qed
  {
    assume "Put L d t ctx (Some a) s = (r, s')" "r \<noteq> Ok ()"
      and st: "stampAndMarshal L d ctx (ptr t a) s = (Ok (av, cond), s1)"
      and be: "lib_build_error L (no_parts\<lparr>ex_condition := Some cond\<rparr>) = None"
    moreover obtain m' where "modelFieldOf (mem s1) (ptr t a) = Ok (t, a, m')"
      using e'[OF st] modelFieldOf_entity by blast
    moreover obtain x w where "PutItem (db_client d)
        \<lparr>pi_table = db_table d, pi_item = av, pi_condition = Some cond\<rparr> (world s1) = (x, w)" by fastforce
    ultimately show "\<exists>e w. PutItem (db_client d) \<lparr>pi_table = db_table d, pi_item = av, pi_condition = Some cond\<rparr> (world s1) = (Inl e, w) \<and>
        s' = s1\<lparr>world := w\<rparr> \<and> (\<exists>m'. r = Fail (asOptimisticLockErr L e ''put'' t m'))"
      by (cases x) (auto simp: Put_def Let_def build_expr_def no_parts_def api_def)
  }
  {
    assume "Put L d t ctx (Some a) s = (Ok (), s')"
    then show "\<exists>av cond s1 w. stampAndMarshal L d ctx (ptr t a) s = (Ok (av, cond), s1) \<and>
        PutItem (db_client d) \<lparr>pi_table = db_table d, pi_item = av, pi_condition = Some cond\<rparr> (world s1) = (Inr (), w) \<and>
        s' = s1\<lparr>world := w\<rparr>"
      by (auto simp: Put_def Let_def continue_Ok build_expr_def no_parts_def api_Ok split: option.splits)
  }
qed

text \<open>The types whose key is the ID alone, and that key.\<close>

definition default_keyed :: "gtype \<Rightarrow> bool" where
  "default_keyed t \<longleftrightarrow> id_promoted t \<and> (\<exists>mt. parse_tags t = Ok mt \<and> pkFields mt = [] \<and> skFields mt = [])"

definition id_table_key :: "'w lib \<Rightarrow> gtype \<Rightarrow> uuid \<Rightarrow> table_key" where
  "id_table_key L t i =
     (let k = type_name t @ ''#'' @ lib_uuid_string L i in (k, k))"

lemma default_keys_of_entity:
  assumes "default_keyed t" and "entity h t a m"
  shows "\<exists>k. Keys L h (ptr t a) = Ok (k, k) \<and> id_table_key L t (m_ID m) = (k, k)"
proof -
  obtain mt where mt: "parse_tags t = Ok mt" "pkFields mt = []" "skFields mt = []" and i: "id_promoted t"
    using assms(1) by (auto simp: default_keyed_def)
  have "value_field t (h a) ''ID'' = Some (TUUID, VUUID (m_ID m))"
    using assms(2) i by (auto simp: entity_def intro: id_of_entity)
  then show ?thesis
    by (simp add: Keys_def key_of_pointer[OF mt(1)] buildKey_def pk_names_def sk_names_def mt(2,3)
        id_table_key_def Let_def)
qed

text \<open>What a write of an entity sends, and what it leaves in memory.\<close>

lemma stamped_item:
  assumes e: "entity (mem s) t a m" and d: "default_keyed t" and v: "version_law L t num"
    and g: "db_gsi1PKAttr d \<notin> {''PK'', ''SK'', ''Version''}"
    and st: "stampAndMarshal L d ctx (ptr t a) s = (Ok (av, cond), s1)"
  shows "\<exists>m'. mem s1 = stamped (mem s) t a m' \<and> primary_key av = Some (id_table_key L t (m_ID m')) \<and>
    fmlookup av ''Version'' = Some (num (m_Version m')) \<and>
    (if m_CreatedAt m = 0
     then cond = AttrNotExists ''PK'' \<and> m_Version m' = 1 \<and> (m_ID m \<noteq> 0 \<longrightarrow> m_ID m' = m_ID m)
     else cond = version_equals (m_Version m) \<and> m_Version m' = m_Version m + 1 \<and> m_ID m' = m_ID m)"
proof -
  let ?new = "m_CreatedAt m = 0"
  obtain m' where m': "mem s1 = stamped (mem s) t a m'"
      "marshal_with_keys L d (mem s1) t a (m_ID m) ?new = Ok av"
      "cond = (if ?new then AttrNotExists ''PK'' else version_equals (m_Version m))"
      "if ?new then m_Version m' = 1 \<and> (m_ID m \<noteq> 0 \<longrightarrow> m_ID m' = m_ID m)
       else m_Version m' = m_Version m + 1 \<and> m_ID m' = m_ID m"
  proof -
    obtain m' w where eq: "stampAndMarshal L d ctx (ptr t a) s =
        (map_ok (\<lambda>av. (av, if ?new then AttrNotExists ''PK'' else version_equals (m_Version m)))
          (marshal_with_keys L d (stamped (mem s) t a m') t a (m_ID m) ?new),
         s\<lparr>mem := stamped (mem s) t a m', world := w\<rparr>)"
      and cases: "if ?new
       then \<exists>i. m' = stamped_create (fst (db_clock d (world s))) (db_actor d ctx) i (type_name t) \<and>
         i = (if m_ID m = 0 then fst (lib_uuid_new L (snd (db_clock d (world s)))) else m_ID m)
       else m' = stamped_update (fst (db_clock d (world s))) (db_actor d ctx) m"
      using stampAndMarshal_entity[OF e, of L d ctx] by blast
    have "if ?new then m_Version m' = 1 \<and> (m_ID m \<noteq> 0 \<longrightarrow> m_ID m' = m_ID m)
       else m_Version m' = m_Version m + 1 \<and> m_ID m' = m_ID m"
      using cases by (auto simp: stamped_create_def stamped_update_def split: if_splits)
    with eq st that[of m'] show thesis by auto
  qed
  have e': "entity (mem s1) t a m'" using entity_stamped[OF e] m'(1) by simp
  obtain k where k: "Keys L (mem s1) (ptr t a) = Ok (k, k)"
      "id_table_key L t (m_ID m') = (k, k)"
    using default_keys_of_entity[OF d e'] by blast
  obtain base where base: "marshalItem L (mem s1) (ptr t a) = Ok base"
      "av = (let av' = fmupd ''SK'' (AVS k) (fmupd ''PK'' (AVS k) base)
        in if ?new then fmupd (db_gsi1PKAttr d) (AVS (type_name t)) av' else av')"
    using marshal_with_keys_Ok[OF m'(2)] k(1) by auto
  have "fmlookup base ''Version'' = Some (num (m_Version m'))"
    using v e' base(1) by (auto simp: version_law_def)
  then have "fmlookup av ''Version'' = Some (num (m_Version m'))" "primary_key av = Some (id_table_key L t (m_ID m'))"
    using g k(2) by (auto simp: base(2) primary_key_def Let_def)
  with m' show ?thesis by (intro exI[of _ m']) auto
qed

text \<open>The key of what a write sends, for any type: the entity's, as stamped.\<close>

lemma stamped_key:
  assumes "entity (mem s) t a m" and "db_gsi1PKAttr d \<notin> {''PK'', ''SK''}"
    and "stampAndMarshal L d ctx (ptr t a) s = (Ok (av, cond), s1)"
  shows "\<exists>k. Keys L (mem s1) (ptr t a) = Ok k \<and> primary_key av = Some k \<and>
    cond = (if m_CreatedAt m = 0 then AttrNotExists ''PK'' else version_equals (m_Version m))"
proof -
  obtain m' w where eq: "stampAndMarshal L d ctx (ptr t a) s =
      (map_ok (\<lambda>av. (av, if m_CreatedAt m = 0 then AttrNotExists ''PK'' else version_equals (m_Version m)))
        (marshal_with_keys L d (stamped (mem s) t a m') t a (m_ID m) (m_CreatedAt m = 0)),
       s\<lparr>mem := stamped (mem s) t a m', world := w\<rparr>)"
    using stampAndMarshal_entity[OF assms(1), of L d ctx] by blast
  then have "marshal_with_keys L d (mem s1) t a (m_ID m) (m_CreatedAt m = 0) = Ok av"
      and cond: "cond = (if m_CreatedAt m = 0 then AttrNotExists ''PK'' else version_equals (m_Version m))"
    using assms(3) by auto
  from marshal_with_keys_Ok[OF this(1)] assms(2) cond show ?thesis
    by (auto simp: primary_key_def Let_def)
qed

lemma marshaled_base:
  assumes "entity (mem s) t a m" and "stampAndMarshal L d ctx (ptr t a) s = (Ok (av, cond), s1)"
  shows "\<exists>base. marshalItem L (mem s1) (ptr t a) = Ok base \<and>
    (\<forall>k. k \<notin> {''PK'', ''SK'', db_gsi1PKAttr d} \<longrightarrow> fmlookup av k = fmlookup base k)"
proof -
  obtain m' w where eq: "stampAndMarshal L d ctx (ptr t a) s =
      (map_ok (\<lambda>av. (av, if m_CreatedAt m = 0 then AttrNotExists ''PK'' else version_equals (m_Version m)))
        (marshal_with_keys L d (stamped (mem s) t a m') t a (m_ID m) (m_CreatedAt m = 0)),
       s\<lparr>mem := stamped (mem s) t a m', world := w\<rparr>)"
    using stampAndMarshal_entity[OF assms(1), of L d ctx] by blast
  then have "marshal_with_keys L d (mem s1) t a (m_ID m) (m_CreatedAt m = 0) = Ok av"
    using assms(2) by auto
  from marshal_with_keys_Ok[OF this] show ?thesis by (auto simp: Let_def)
qed

text \<open>A put whose condition is false fails and leaves the table alone.\<close>

lemma Put_condition_false:
  assumes e: "entity (mem s) t a m" and q: "quiet L d view"
    and law: "table_law (db_client d) (db_table d) view holds"
    and put: "Put L d t ctx (Some a) s = (r, s')"
    and bad: "\<And>av cond s1. stampAndMarshal L d ctx (ptr t a) s = (Ok (av, cond), s1) \<Longrightarrow>
      primary_key av = Some k \<and> \<not> holds cond (view (world s) k)"
    and build: "\<And>ps. lib_build_error L ps = None"
    and st: "stampAndMarshal L d ctx (ptr t a) s = (Ok x, s1)"
  shows "view (world s') = view (world s) \<and>
    (\<exists>e i. r = Fail (asOptimisticLockErr L e ''put'' t i))"
proof -
  obtain av cond where st': "stampAndMarshal L d ctx (ptr t a) s = (Ok (av, cond), s1)"
    using st by (cases x) auto
  have w1: "view (world s1) = view (world s)" using stampAndMarshal_world[OF q, of ctx "ptr t a" s] st' by simp
  have k: "primary_key av = Some k" and nh: "\<not> holds cond (view (world s1) k)" using bad[OF st'] w1 by simp_all
  have "r \<noteq> Ok ()"
  proof
    assume "r = Ok ()"
    with put have "Put L d t ctx (Some a) s = (Ok (), s')" by simp
    from Put_entity(2)[OF e this] st' obtain w where
      "PutItem (db_client d) \<lparr>pi_table = db_table d, pi_item = av, pi_condition = Some cond\<rparr> (world s1) = (Inr (), w)"
      by auto
    from table_put(1)[OF law k this] nh show False by simp
  qed
  from Put_entity(1)[OF e put this st' build] obtain e w where
    "PutItem (db_client d) \<lparr>pi_table = db_table d, pi_item = av, pi_condition = Some cond\<rparr> (world s1) = (Inl e, w)"
    "s' = s1\<lparr>world := w\<rparr>" "\<exists>i. r = Fail (asOptimisticLockErr L e ''put'' t i)" by blast
  moreover from table_put(2)[OF law k this(1) nh] have "view w = view (world s1)" .
  ultimately show ?thesis using w1 by auto
qed

text \<open>What a \<open>Get\<close> makes of the version that the service shows it.\<close>

definition get_result :: "'w lib \<Rightarrow> gtype \<Rightarrow> uuid \<Rightarrow> item option \<Rightarrow> gval outcome" where
  "get_result L t i v =
     (let out = (case v of None \<Rightarrow> fmempty | Some it \<Rightarrow> it) in
      if out = fmempty then Fail (Wrapped (''godynamo: get '' @ id_text L t i) ErrNotFound)
      else wrap_fail (''godynamo: unmarshal '' @ id_text L t i) (unmarshal_fresh L t out))"

definition read_failed :: "'w lib \<Rightarrow> ('c, 'w) db \<Rightarrow> gtype \<Rightarrow> uuid \<Rightarrow> 'w st \<Rightarrow> gval outcome \<Rightarrow> bool" where
  "read_failed L d t i s r \<longleftrightarrow>
     (\<exists>key e. primary_key key = Some (id_table_key L t i) \<and>
        fst (GetItem (db_client d) \<lparr>ki_table = db_table d, ki_key = key\<rparr> (world s)) = Inl e \<and>
        r = Fail (Wrapped (''godynamo: get '' @ id_text L t i) e))"

lemma zeroKeys_default:
  assumes "default_keyed t"
  shows "\<exists>k. zeroKeys L h t i = Ok (k, k) \<and> id_table_key L t i = (k, k)"
proof -
  obtain mt where mt: "parse_tags t = Ok mt" "pkFields mt = []" "skFields mt = []" and idp: "id_promoted t"
    using assms by (auto simp: default_keyed_def)
  obtain p where p: "model_path t = Some p" using idp by (auto simp: id_promoted_def)
  let ?v = "with_model t (\<lambda>m. m\<lparr>m_ID := i\<rparr>) (zero_value t)"
  obtain z where z: "model_at t (zero_value t) = Some z"
    using model_at_typed[OF p zero_value_typed(1)] by blast
  have "entity (\<lambda>_. ?v) t 0 (z\<lparr>m_ID := i\<rparr>)"
    using with_model_typed[OF zero_value_typed(1)] model_at_with_model[OF p zero_value_typed(1) z] mt(1)
    by (simp add: entity_def)
  from default_keys_of_entity[OF assms this, of L] zeroKeys_entity[OF mt idp this, of L h]
  show ?thesis by auto
qed

lemma requiresDefaultKey_default: "default_keyed t \<Longrightarrow> requiresDefaultKey t op = Ok ()"
  by (auto simp: default_keyed_def requiresDefaultKey_def)

lemma Get_reads:
  assumes "default_keyed t" and "read_law (db_client d) (db_table d) versions" and "Get L d t i s = (r, s')"
  shows "(\<exists>v\<in>versions (world s) (id_table_key L t i). r = get_result L t i v) \<or> read_failed L d t i s r"
proof -
  obtain k where k: "zeroKeys L (mem s) t i = Ok (k, k)" "id_table_key L t i = (k, k)"
    using zeroKeys_default[OF assms(1)] by blast
  obtain x w where get: "GetItem (db_client d) \<lparr>ki_table = db_table d, ki_key = itemKey k k\<rparr> (world s) = (x, w)"
    by fastforce
  show ?thesis
  proof (cases x)
    case (Inl e)
    with get assms(3) have "r = Fail (Wrapped (''godynamo: get '' @ id_text L t i) e)"
      by (simp add: Get_def requiresDefaultKey_default[OF assms(1)] k api_def)
    with get Inl k(2) show ?thesis unfolding read_failed_def
      by (intro disjI2 exI[of _ "itemKey k k"] exI[of _ e]) simp
  next
    case (Inr out)
    from read_get[OF assms(2) primary_key_itemKey get[unfolded Inr]] obtain v where
      v: "v \<in> versions (world s) (k, k)" "out = (case v of None \<Rightarrow> fmempty | Some it \<Rightarrow> it)" by blast
    have "r = get_result L t i v"
      using get Inr assms(3) v(2)
      by (simp add: Get_def requiresDefaultKey_default[OF assms(1)] k api_def get_result_def Let_def split: if_splits)
    with v(1) k(2) show ?thesis by auto
  qed
qed

section \<open>Properties\<close>

text \<open>
  C1: No lost update: of two writers that hold the entity at the same version, only one succeeds.
  After the first one's \<open>Put\<close>, the second one's fails, leaves the table as the first one wrote it,
  and its error is \<open>ErrOptimisticLock\<close> when the service says that the condition failed.
\<close>

theorem lost_update_prevented:
  assumes "default_keyed t" and "version_law L t num" and "condition_law num holds"
    and "table_law (db_client d) (db_table d) view holds" and "quiet L d view"
    and "db_gsi1PKAttr d \<notin> {''PK'', ''SK'', ''Version''}" and "\<And>ps. lib_build_error L ps = None"
    and "entity (mem s) t a m" and "entity (mem s) t a' m'" and "a \<noteq> a'"
    and "m_ID m = m_ID m'" and "m_Version m = m_Version m'" and "m_CreatedAt m \<noteq> 0" and "m_CreatedAt m' \<noteq> 0"
    and "Put L d t ctx (Some a) s = (Ok (), s1)" and "Put L d t ctx' (Some a') s1 = (r, s2)"
    and "stampAndMarshal L d ctx' (ptr t a') s1 = (Ok x, s3)"
  shows "view (world s2) = view (world s1) \<and>
    (\<exists>e i. r = Fail (asOptimisticLockErr L e ''put'' t i) \<and>
      (as_cond_check_failed e \<noteq> None \<longrightarrow> errors_is (asOptimisticLockErr L e ''put'' t i) ErrOptimisticLock))"
proof -
  obtain av cond s0 w where st: "stampAndMarshal L d ctx (ptr t a) s = (Ok (av, cond), s0)"
      and call: "PutItem (db_client d) \<lparr>pi_table = db_table d, pi_item = av, pi_condition = Some cond\<rparr> (world s0) = (Inr (), w)"
      and s1: "s1 = s0\<lparr>world := w\<rparr>"
    using Put_entity(2)[OF assms(8,15)] by blast
  obtain n where n: "mem s0 = stamped (mem s) t a n" "primary_key av = Some (id_table_key L t (m_ID m))"
      "fmlookup av ''Version'' = Some (num (m_Version m + 1))"
    using stamped_item[OF assms(8,1,2,6) st] assms(13) by auto
  have stored: "view (world s1) (id_table_key L t (m_ID m)) = Some av"
    using table_put(1)[OF assms(4) n(2) call] s1 by simp
  have e': "entity (mem s1) t a' m'"
    using assms(9,10) n(1) s1 by (simp add: entity_def stamped_def)
  have "primary_key av2 = Some (id_table_key L t (m_ID m)) \<and>
      \<not> holds cond2 (view (world s1) (id_table_key L t (m_ID m)))"
    if "stampAndMarshal L d ctx' (ptr t a') s1 = (Ok (av2, cond2), s4)" for av2 cond2 s4
  proof -
    have "primary_key av2 = Some (id_table_key L t (m_ID m))" "cond2 = version_equals (m_Version m)"
      using stamped_item[OF e' assms(1,2,6) that] assms(11,12,14) by auto
    moreover have "num (m_Version m + 1) \<noteq> num (m_Version m)"
      using assms(3) by (auto simp: condition_law_def inj_eq)
    ultimately show ?thesis
      using stored n(3) assms(3) by (auto simp: condition_law_def)
  qed
  from Put_condition_false[OF e' assms(5,4,16) this assms(7,17)]
  have "view (world s2) = view (world s1) \<and> (\<exists>e i. r = Fail (asOptimisticLockErr L e ''put'' t i))" .
  then show ?thesis by (auto simp: asOptimisticLockErr_def)
qed

text \<open>
  C22: No accidental overwrite by \<open>Put\<close>: a new entity of any type, with a preset or a generated ID, is not
  written over a stored item of its key; the call fails and the table keeps what it holds.
\<close>

theorem create_does_not_overwrite:
  assumes "condition_law num holds" and "table_law (db_client d) (db_table d) view holds" and "quiet L d view"
    and "db_gsi1PKAttr d \<notin> {''PK'', ''SK''}" and "\<And>ps. lib_build_error L ps = None"
    and "entity (mem s) t a m" and "m_CreatedAt m = 0"
    and "Put L d t ctx (Some a) s = (r, s')" and "stampAndMarshal L d ctx (ptr t a) s = (Ok x, s1)"
    and "Keys L (mem s1) (ptr t a) = Ok k" and "view (world s) k = Some old" and "fmlookup old ''PK'' \<noteq> None"
  shows "view (world s') = view (world s) \<and> r \<noteq> Ok ()"
proof -
  have "primary_key av = Some k \<and> \<not> holds cond (view (world s) k)"
    if st: "stampAndMarshal L d ctx (ptr t a) s = (Ok (av, cond), s2)" for av cond s2
    using stamped_key[OF assms(6,4) st] st assms(1,7,9-12) by (auto simp: condition_law_def)
  from Put_condition_false[OF assms(6,3,2,8) this assms(5,9)]
  have "view (world s') = view (world s) \<and> (\<exists>e i. r = Fail (asOptimisticLockErr L e ''put'' t i))" .
  then show ?thesis by auto
qed

text \<open>
  C2: Read your write: a \<open>Get\<close> right after a successful \<open>Put\<close> returns the entity as the \<open>Put\<close> left
  it in memory, compressed fields included, unless the call of the service fails or the service shows a
  version that the key had before the \<open>Put\<close> (the read is eventually consistent).
\<close>

theorem put_then_get:
  assumes "default_keyed t" and "parse_tags t = Ok mt" and "version_law L t num"
    and "read_law (db_client d) (db_table d) versions" and "quiet L d versions"
    and "db_gsi1PKAttr d \<notin> {''PK'', ''SK'', ''Version''}"
    and "entity (mem s) t a m" and "Put L d t ctx (Some a) s = (Ok (), s1)"
    and "entity (mem s1) t a m1" and "Get L d t (m_ID m1) s1 = (r, s2)"
    and "separate_fields t (compressFields mt)" and "gzip_law L"
    and "json_law L (mem s1) t (mem s1 a) (compressFields mt)"
    and "\<forall>n\<in>set (compressFields mt). resolve_attr_name t n \<notin> {''PK'', ''SK'', db_gsi1PKAttr d}"
    and "unmarshal_law L (mem s1) t a (compressFields mt) {''PK'', ''SK'', db_gsi1PKAttr d}"
  shows "r = Ok (mem s1 a) \<or>
    (\<exists>old \<in> versions (world s) (id_table_key L t (m_ID m1)) \<inter> versions (world s1) (id_table_key L t (m_ID m1)).
      r = get_result L t (m_ID m1) old) \<or>
    read_failed L d t (m_ID m1) s1 r"
proof -
  let ?k = "id_table_key L t (m_ID m1)"
  obtain av cond s0 w where st: "stampAndMarshal L d ctx (ptr t a) s = (Ok (av, cond), s0)"
      and call: "PutItem (db_client d) \<lparr>pi_table = db_table d, pi_item = av, pi_condition = Some cond\<rparr> (world s0) = (Inr (), w)"
      and s1: "s1 = s0\<lparr>world := w\<rparr>"
    using Put_entity(2)[OF assms(7,8)] by blast
  obtain n where n: "mem s0 = stamped (mem s) t a n" "primary_key av = Some (id_table_key L t (m_ID n))"
    using stamped_item[OF assms(7,1,3,6) st] by blast
  have "n = m1" using assms(9) entity_stamped[OF assms(7), of n] n(1) s1 by (auto simp: entity_def)
  then have k: "primary_key av = Some ?k" using n(2) by simp
  have "versions (world s0) = versions (world s)"
    using stampAndMarshal_world[OF assms(5), of ctx "ptr t a" s] st by simp
  then have vs: "versions (world s1) ?k \<subseteq> insert (Some av) (versions (world s) ?k)"
    using read_put[OF assms(4) k call] s1 by simp
  obtain base where base: "marshalItem L (mem s1) (ptr t a) = Ok base"
      "\<And>k. k \<notin> {''PK'', ''SK'', db_gsi1PKAttr d} \<Longrightarrow> fmlookup av k = fmlookup base k"
    using marshaled_base[OF assms(7) st] s1 by auto
  have "has_type (mem s1 a) t" using assms(9) by (simp add: entity_def)
  from round_trip_core[OF assms(2) this assms(11) base(1) assms(12,13) _ assms(14,15)] base(2)
  have "unmarshal_fresh L t av = Ok (mem s1 a)" by blast
  moreover have "av \<noteq> fmempty" using k by (auto simp: primary_key_def)
  ultimately have "get_result L t (m_ID m1) (Some av) = Ok (mem s1 a)" by (simp add: get_result_def)
  with Get_reads[OF assms(1,4,10)] vs show ?thesis by blast
qed

text \<open>
  Every successful re-\<open>Put\<close> of a stored entity takes it out of the type index: the table
  then holds the entity without the index attribute, unless the entity marshals that attribute itself.
\<close>

theorem reput_leaves_type_index:
  assumes "default_keyed t" and "version_law L t num"
    and "table_law (db_client d) (db_table d) view holds"
    and "db_gsi1PKAttr d \<notin> {''PK'', ''SK'', ''Version''}"
    and "entity (mem s) t a m" and "m_CreatedAt m \<noteq> 0" and "Put L d t ctx (Some a) s = (Ok (), s1)"
    and "\<And>base. marshalItem L (mem s1) (ptr t a) = Ok base \<Longrightarrow> fmlookup base (db_gsi1PKAttr d) = None"
  shows "\<exists>stored. view (world s1) (id_table_key L t (m_ID m)) = Some stored \<and>
    fmlookup stored (db_gsi1PKAttr d) = None"
proof -
  obtain av cond s0 w where st: "stampAndMarshal L d ctx (ptr t a) s = (Ok (av, cond), s0)"
      and call: "PutItem (db_client d) \<lparr>pi_table = db_table d, pi_item = av, pi_condition = Some cond\<rparr> (world s0) = (Inr (), w)"
      and s1: "s1 = s0\<lparr>world := w\<rparr>"
    using Put_entity(2)[OF assms(5,7)] by blast
  have k: "primary_key av = Some (id_table_key L t (m_ID m))"
    using stamped_item[OF assms(5,1,2,4) st] assms(6) by auto
  obtain m' w' where "stampAndMarshal L d ctx (ptr t a) s =
      (map_ok (\<lambda>av. (av, version_equals (m_Version m)))
        (marshal_with_keys L d (stamped (mem s) t a m') t a (m_ID m) False),
       s\<lparr>mem := stamped (mem s) t a m', world := w'\<rparr>)"
    using stampAndMarshal_entity[OF assms(5), of L d ctx] assms(6) by auto
  then have "marshal_with_keys L d (mem s1) t a (m_ID m) False = Ok av" using st s1 by auto
  from marshal_with_keys_Ok[OF this] assms(4,8) have "fmlookup av (db_gsi1PKAttr d) = None"
    by (auto simp: Let_def)
  then show ?thesis using table_put(1)[OF assms(3) k call] s1 by auto
qed

section \<open>Witnesses\<close>

text \<open>The in-memory table obeys the laws.\<close>

definition num_attr :: "go_int \<Rightarrow> attr_val" where
  "num_attr v = AVN (int_string (sint v))"

definition sample_view :: "sworld \<Rightarrow> table_key \<Rightarrow> item option" where
  "sample_view w k = fmlookup (sw_table w) k"

lemma primary_key_key_of: "primary_key av = Some k \<Longrightarrow> key_of av = k"
  by (auto simp: primary_key_def key_of_def split: option.splits attr_val.splits)

lemma sample_table_law: "table_law sample_client ''t'' sample_view sample_cond"
  by (auto simp: table_law_def sample_put_def sample_get_def primary_key_key_of opt_cond_def sample_view_def
      fun_eq_iff)

text \<open>Its reads are always current.\<close>

definition sample_versions :: "sworld \<Rightarrow> table_key \<Rightarrow> item option set" where
  "sample_versions w k = {sample_view w k}"

lemma sample_read_law: "read_law sample_client ''t'' sample_versions"
  by (auto simp: read_law_def sample_versions_def sample_view_def sample_put_def sample_get_def sample_delete_def
      primary_key_key_of split: if_splits)

lemma sample_condition_law: "condition_law num_attr sample_cond"
proof -
  have "inj num_attr"
    by (rule injI) (metis attr_val.inject(2) num_attr_def parse_int_string signed_word_eqI)
  moreover have "sample_cond (AttrNotExists n) it \<longleftrightarrow> (\<forall>i. it = Some i \<longrightarrow> fmlookup i n = None)" for n it
    by (cases it) auto
  moreover have "sample_cond (version_equals v) it \<longleftrightarrow>
      (\<exists>i. it = Some i \<and> fmlookup i ''Version'' = Some (num_attr v))" for v it
    by (cases it) (auto simp: version_equals_def num_attr_def)
  ultimately show ?thesis by (simp add: condition_law_def)
qed

lemma sample_quiet: "quiet sample_lib sample_db sample_view"
  by (simp add: quiet_def sample_view_def fun_eq_iff)

lemma sample_quiet_versions: "quiet sample_lib sample_db sample_versions"
  by (simp add: quiet_def sample_versions_def sample_view_def fun_eq_iff)

lemma task_default_keyed: "default_keyed task_type"
  by (simp add: default_keyed_def id_promoted_task parse_task)

lemma task_typed:
  assumes "has_type v task_type"
  shows "\<exists>m p q r n. v = VStruct [val_of_model m, VStr p, VStr q, VStr r, VStr n]"
  using assms has_type_model
  by (auto simp: task_type_def has_type_TStruct has_types_Cons has_types_Nil has_type_basic)

lemma task_version_law: "version_law sample_lib task_type num_attr"
proof -
  have "fmlookup av ''Version'' = Some (num_attr (m_Version m))"
    if e: "entity h task_type a m" and av: "marshalItem sample_lib h (ptr task_type a) = Ok av" for h a m av
  proof -
    obtain m' p q r n where v: "h a = VStruct [val_of_model m', VStr p, VStr q, VStr r, VStr n]"
      using e task_typed by (force simp: entity_def)
    then have "m' = m" using e by (auto simp: entity_def model_at_def)
    moreover have "fmlookup (marshal_leaves (h a) (type_leaves task_type)) ''Version'' = Some (num_attr (m_Version m'))"
      by (simp add: v type_leaves_def task_type_def model_type_def val_of_model_def num_attr_def)
    moreover obtain base where "lib_marshal_map sample_lib h (ptr task_type a) = Inr base"
        "compress_fields sample_lib h (task_type, h a) [''Notes''] base = Ok av"
      using marshalItem_Ok[OF parse_task av] by auto
    ultimately show ?thesis
      using compress_fields_other[of sample_lib h task_type "h a" "[''Notes'']" base av "''Version''"]
      by (simp add: task_notes_attr)
  qed
  then show ?thesis by (simp add: version_law_def)
qed

text \<open>A stored task at version 1, and two copies of it in memory.\<close>

definition stored_task :: sworld where
  "stored_task = empty_world\<lparr>sw_table := fmupd (''Task#5'', ''Task#5'')
     (fmupd ''Version'' (num_attr 1) (itemKey ''Task#5'' ''Task#5'')) fmempty\<rparr>"

lemma task_put_update:
  assumes "mem s a = task_value saved_model n" and "w = world s"
    and "fmlookup (sw_table w) (''Task#5'', ''Task#5'') = Some old" and "fmlookup old ''Version'' = Some (num_attr 1)"
  shows "\<exists>w'. Put sample_lib sample_db task_type () (Some a) s =
    (Ok (), s\<lparr>mem := (mem s)(a := task_value (stamped_update (sw_time w) [] saved_model) n), world := w'\<rparr>)"
proof -
  let ?m = "stamped_update (sw_time w) [] saved_model"
  let ?h = "(mem s)(a := task_value ?m n)"
  have st: "stampAndMarshal sample_lib sample_db () (ptr task_type a) s =
      (Ok (task_item False ?m n, version_equals 1), s\<lparr>mem := ?h, world := w\<lparr>sw_time := sw_time w + 1\<rparr>\<rparr>)"
    using task_update[of s a saved_model n] assms(1,2) by (simp add: Let_def)
  have mf: "modelFieldOf ?h (ptr task_type a) = Ok (task_type, a, ?m)"
    by (rule modelFieldOf_entity, rule task_entity) simp
  have key: "key_of (task_item False ?m n) = (''Task#5'', ''Task#5'')"
    by (simp add: task_item_def key_of_def Let_def stamped_update_def nat_string.simps)
  have "sample_cond (version_equals 1) (Some old)" using assms(4) by (simp add: version_equals_def num_attr_def)
  then show ?thesis
    using assms(3)
    by (simp add: Put_def st mf build_expr_def no_parts_def api_def sample_put_def key opt_cond_def)
      (rule exI, rule refl)
qed

theorem lost_update_prevented_witness:
  "\<exists>s1 s2 r. Put sample_lib sample_db task_type () (Some 0) (task_st saved_model ''n'' stored_task) = (Ok (), s1) \<and>
    Put sample_lib sample_db task_type () (Some 1) s1 = (r, s2) \<and> (\<exists>e. r = Fail e) \<and>
    sample_view (world s2) = sample_view (world s1)"
proof -
  let ?s = "task_st saved_model ''n'' stored_task"
  obtain w' where put: "Put sample_lib sample_db task_type () (Some 0) ?s =
    (Ok (), ?s\<lparr>mem := (mem ?s)(0 := task_value (stamped_update (sw_time stored_task) [] saved_model) ''n''), world := w'\<rparr>)"
    using task_put_update[of ?s 0 "''n''" stored_task] by (auto simp: task_st_def stored_task_def)
  let ?s1 = "?s\<lparr>mem := (mem ?s)(0 := task_value (stamped_update (sw_time stored_task) [] saved_model) ''n''), world := w'\<rparr>"
  obtain r s2 where put2: "Put sample_lib sample_db task_type () (Some 1) ?s1 = (r, s2)" by fastforce
  have m1: "mem ?s1 1 = task_value saved_model ''n''" by (simp add: task_st_def)
  obtain x s3 where st: "stampAndMarshal sample_lib sample_db () (ptr task_type 1) ?s1 = (Ok x, s3)"
    using task_update[of ?s1 1, OF m1] by (auto simp: Let_def)
  have e: "entity (mem ?s) task_type 0 saved_model" "entity (mem ?s) task_type 1 saved_model"
    by (auto intro!: task_entity simp: task_st_def)
  have law: "table_law (db_client sample_db) (db_table sample_db) sample_view sample_cond"
    by (simp add: sample_table_law)
  have g: "db_gsi1PKAttr sample_db \<notin> {''PK'', ''SK'', ''Version''}" by simp
  have b: "lib_build_error sample_lib ps = None" for ps by simp
  have "m_CreatedAt saved_model \<noteq> 0" by simp
  from lost_update_prevented[OF task_default_keyed task_version_law sample_condition_law law sample_quiet g b e
      _ refl refl this this put put2 st] put put2
  show ?thesis by auto
qed

lemma sample_db_laws:
  "table_law (db_client sample_db) (db_table sample_db) sample_view sample_cond"
  "db_gsi1PKAttr sample_db \<notin> {''PK'', ''SK'', ''Version''}" "lib_build_error sample_lib ps = None"
  by (simp_all add: sample_table_law)

text \<open>A new task with a preset ID.\<close>

definition preset_model :: model where
  "preset_model = zero_model\<lparr>m_ID := 5\<rparr>"

lemma preset_stamp:
  "\<exists>x s1. stampAndMarshal sample_lib sample_db () (ptr task_type 0) (task_st preset_model n w) = (Ok x, s1) \<and>
    Keys sample_lib (mem s1) (ptr task_type 0) = Ok (''Task#5'', ''Task#5'')"
proof -
  let ?s = "task_st preset_model n w"
  have m: "mem ?s 0 = task_value preset_model n" by (simp add: task_st_def)
  have e: "entity (mem ?s) task_type 0 preset_model" using m by (rule task_entity)
  have c: "m_CreatedAt preset_model = 0" "m_ID preset_model \<noteq> 0" by (simp_all add: preset_model_def zero_model_def)
  let ?m = "stamped_create (sw_time w) [] (m_ID preset_model) ''Task''"
  have id5: "m_ID ?m = 5" by (simp add: preset_model_def stamped_create_def)
  have clock: "draw (db_clock sample_db) ?s = (sw_time w, ?s\<lparr>world := w\<lparr>sw_time := sw_time w + 1\<rparr>\<rparr>)"
    by (simp add: draw_def task_st_def)
  show ?thesis
    unfolding stampAndMarshal_def type_elem_ptr and_then.simps modelFieldOf_entity[OF e]
    using stamp_create[OF e c(1) clock, of sample_lib] c(2) m
      task_keys[of "(mem ?s)(0 := task_value ?m n)" 0 ?m n]
    by (simp add: task_marshal_with_keys stamped_def Keys_def nat_string.simps id5)
qed

theorem create_does_not_overwrite_witness:
  "\<exists>r s'. Put sample_lib sample_db task_type () (Some 0) (task_st preset_model ''n'' stored_task) = (r, s') \<and>
    r \<noteq> Ok () \<and> sample_view (world s') = sample_view stored_task"
proof -
  let ?s = "task_st preset_model ''n'' stored_task"
  obtain r s' where put: "Put sample_lib sample_db task_type () (Some 0) ?s = (r, s')" by fastforce
  obtain x s1 where st: "stampAndMarshal sample_lib sample_db () (ptr task_type 0) ?s = (Ok x, s1)"
      and keys: "Keys sample_lib (mem s1) (ptr task_type 0) = Ok (''Task#5'', ''Task#5'')"
    using preset_stamp by blast
  have e: "entity (mem ?s) task_type 0 preset_model" by (rule task_entity) (simp add: task_st_def)
  have c: "m_CreatedAt preset_model = 0" by (simp add: preset_model_def zero_model_def)
  have old: "sample_view (world ?s) (''Task#5'', ''Task#5'') =
      Some (fmupd ''Version'' (num_attr 1) (itemKey ''Task#5'' ''Task#5''))"
    by (simp add: sample_view_def task_st_def stored_task_def)
  have pk: "fmlookup (fmupd ''Version'' (num_attr 1) (itemKey ''Task#5'' ''Task#5'')) ''PK'' \<noteq> None"
    by (simp add: itemKey_def)
  have "db_gsi1PKAttr sample_db \<notin> {''PK'', ''SK''}" by simp
  from create_does_not_overwrite[OF sample_condition_law sample_db_laws(1) sample_quiet this sample_db_laws(3)
      e c put st keys old pk] put
  show ?thesis by (auto simp: task_st_def)
qed

text \<open>A task created, and read back.\<close>

definition created_model :: model where
  "created_model = stamped_create 1000 [] 7 ''Task''"

lemma task_put_create:
  "\<exists>w. Put sample_lib sample_db task_type () (Some 0) (task_st zero_model ''n'' empty_world) =
     (Ok (), \<lparr>mem = (\<lambda>_. task_value zero_model ''n'')(0 := task_value created_model ''n''), world = w\<rparr>) \<and>
   fmlookup (sw_table w) (''Task#7'', ''Task#7'') = Some (task_item True created_model ''n'')"
proof -
  let ?h = "(\<lambda>_. task_value zero_model ''n'')(0 := task_value created_model ''n'')"
  have mf: "modelFieldOf ?h (ptr task_type 0) = Ok (task_type, 0, created_model)"
    by (rule modelFieldOf_entity, rule task_entity) simp
  have key: "key_of (task_item True created_model ''n'') = (''Task#7'', ''Task#7'')"
    by (simp add: task_item_def key_of_def Let_def created_model_def stamped_create_def nat_string.simps)
  show ?thesis
    using task_st_create[of "''n''" empty_world] mf
    by (simp add: Put_def Let_def build_expr_def no_parts_def api_def sample_put_def key opt_cond_def
        empty_world_def created_model_def[symmetric])
qed

lemma task_stored_read: "unmarshal_fresh sample_lib task_type (task_item c m n) = Ok (task_value m n)"
proof -
  let ?h = "\<lambda>_ :: nat. task_value m n"
  have "fmlookup (task_item c m n) k = fmlookup (fmupd ''Notes'' (AVB (0x1f # 0x8b # map (\<lambda>c. word_of_nat (of_char c)) n))
      (marshal_leaves (task_value m n) (type_leaves task_type))) k" if "k \<notin> {''PK'', ''SK'', ''GSI1PK''}" for k
    using that by (auto simp: task_item_def Let_def)
  then show ?thesis
    using round_trip_core[OF parse_task _ _ task_marshaled[of m n] sample_gzip_law,
        of "{''PK'', ''SK'', ''GSI1PK''}" "task_item c m n"] task_unmarshal_law[of ?h 0 m n]
    by (simp add: task_fields sample_json_law task_notes_attr)
qed

lemma put_sample_assumptions:
  "separate_fields task_type [''Notes'']" "json_law sample_lib h task_type v [''Notes'']"
  "\<forall>n\<in>set [''Notes'']. resolve_attr_name task_type n \<notin> {''PK'', ''SK'', ''GSI1PK''}"
  by (simp_all add: task_fields sample_json_law task_notes_attr)

theorem put_then_get_witness:
  "\<exists>s1 s2. Put sample_lib sample_db task_type () (Some 0) (task_st zero_model ''n'' empty_world) = (Ok (), s1) \<and>
    Get sample_lib sample_db task_type 7 s1 = (Ok (mem s1 0), s2)"
proof -
  let ?h = "(\<lambda>_. task_value zero_model ''n'')(0 := task_value created_model ''n'')"
  obtain w where put: "Put sample_lib sample_db task_type () (Some 0) (task_st zero_model ''n'' empty_world) =
      (Ok (), \<lparr>mem = ?h, world = w\<rparr>)"
    and tab: "fmlookup (sw_table w) (''Task#7'', ''Task#7'') = Some (task_item True created_model ''n'')"
    using task_put_create by blast
  let ?s1 = "\<lparr>mem = ?h, world = w\<rparr>"
  let ?s0 = "task_st zero_model ''n'' empty_world" and ?k = "id_table_key sample_lib task_type 7"
  have e: "entity (mem ?s1) task_type 0 created_model" by (rule task_entity) simp
  have id: "m_ID created_model = 7" by (simp add: created_model_def stamped_create_def)
  have zk: "zeroKeys sample_lib ?h task_type 7 = Ok (''Task#7'', ''Task#7'')"
    using zeroKeys_entity[OF parse_task _ _ id_promoted_task e, of sample_lib ?h] id
      default_keys_of_entity[OF task_default_keyed e, of sample_lib]
    by (auto simp: id_table_key_def nat_string.simps Let_def)
  have ne: "task_item True created_model ''n'' \<noteq> fmempty" by (simp add: task_item_def Let_def)
  have key: "key_of (itemKey ''Task#7'' ''Task#7'') = (''Task#7'', ''Task#7'')"
    by (simp add: key_of_def itemKey_def)
  have get: "Get sample_lib sample_db task_type (m_ID created_model) ?s1 = (Ok (task_value created_model ''n''), ?s1)"
    using id zk tab ne key
    by (simp add: Get_def requiresDefaultKey_def parse_task continue_Ok api_def sample_get_def task_stored_read)
  have e0: "entity (mem (task_st zero_model ''n'' empty_world)) task_type 0 zero_model"
    by (rule task_entity) (simp add: task_st_def)
  have "unmarshal_law sample_lib ?h task_type 0 [''Notes''] {''PK'', ''SK'', db_gsi1PKAttr sample_db}"
    using task_unmarshal_law[of ?h 0 created_model "''n''"] by simp
  with put_then_get[OF task_default_keyed parse_task task_version_law _ sample_quiet_versions sample_db_laws(2) e0 put e get]
    put_sample_assumptions sample_gzip_law sample_read_law
  have "Ok (task_value created_model ''n'') = Ok (?h 0) \<or>
      (\<exists>old \<in> sample_versions (world ?s0) ?k \<inter> sample_versions (world ?s1) ?k.
        Ok (task_value created_model ''n'') = get_result sample_lib task_type 7 old) \<or>
      read_failed sample_lib sample_db task_type 7 ?s1 (Ok (task_value created_model ''n''))"
    by (simp add: id)
  moreover have "sample_versions (world ?s0) ?k \<inter> sample_versions (world ?s1) ?k = {}"
    using tab by (simp add: sample_versions_def sample_view_def id_table_key_def nat_string.simps task_st_def
        empty_world_def Let_def)
  ultimately have "task_value created_model ''n'' = ?h 0" by (auto simp: read_failed_def)
  with put get id show ?thesis by auto
qed

theorem reput_leaves_type_index_witness:
  "\<exists>s1 stored. Put sample_lib sample_db task_type () (Some 0) (task_st saved_model ''n'' stored_task) = (Ok (), s1) \<and>
    sample_view (world s1) (''Task#5'', ''Task#5'') = Some stored \<and> fmlookup stored ''GSI1PK'' = None"
proof -
  let ?s = "task_st saved_model ''n'' stored_task"
  let ?m = "stamped_update (sw_time stored_task) [] saved_model"
  obtain w' where put: "Put sample_lib sample_db task_type () (Some 0) ?s =
    (Ok (), ?s\<lparr>mem := (mem ?s)(0 := task_value ?m ''n''), world := w'\<rparr>)"
    using task_put_update[of ?s 0 "''n''" stored_task] by (auto simp: task_st_def stored_task_def)
  let ?h = "(mem ?s)(0 := task_value ?m ''n'')"
  have e: "entity (mem ?s) task_type 0 saved_model" by (rule task_entity) (simp add: task_st_def)
  have "fmlookup base ''GSI1PK'' = None" if "marshalItem sample_lib ?h (ptr task_type 0) = Ok base" for base
    using that by (auto simp: marshalItem_def structValueOf_simps[OF parse_task] parse_task sample_fields
        compressJSON_def task_notes_attr task_leaf_names)
  with reput_leaves_type_index[OF task_default_keyed task_version_law sample_db_laws(1,2) e _ put]
  have "\<exists>stored. sample_view w' (id_table_key sample_lib task_type (m_ID saved_model)) = Some stored \<and>
      fmlookup stored ''GSI1PK'' = None"
    by simp
  moreover have "id_table_key sample_lib task_type (m_ID saved_model) = (''Task#5'', ''Task#5'')"
    by (simp add: id_table_key_def nat_string.simps Let_def)
  ultimately show ?thesis using put by auto
qed

end
