(* ===== verification/Table_Ops.thy ===== *)
theory Table_Ops
  imports Table
begin

text \<open>
  \<open>UpdateBuilder.Run\<close> and \<open>Delete\<close> on the documented table: version guards, the version
  counter, and what the other operations see afterwards.
\<close>

section \<open>The documented calls\<close>

text \<open>
  An update tests its condition, applies its actions to the stored item, or to the bare key when there
  is none, and returns the new item, in one atomic step. Attributes no action names are kept; \<open>ADD Version\<close>
  adds to the stored number, and to 0 when the item has none.
\<close>

fun action_name :: "update_action \<Rightarrow> string" where
  "action_name (SetAction n v) = n"
| "action_name (AddAction n v) = n"

definition bump :: "update_action" where
  "bump = AddAction ''Version'' (Some (TInt, VInt 1))"

definition updated_by ::
    "(go_int \<Rightarrow> attr_val) \<Rightarrow> update_action list \<Rightarrow> item \<Rightarrow> item \<Rightarrow> bool" where
  "updated_by num acts old out \<longleftrightarrow>
     (\<forall>n. n \<notin> action_name ` set acts \<longrightarrow> fmlookup out n = fmlookup old n) \<and>
     (\<forall>pre v. acts = pre @ [bump] \<longrightarrow> ''Version'' \<notin> action_name ` set pre \<longrightarrow>
        fmlookup old ''Version'' = Some (num v) \<longrightarrow> sint (v + 1) = sint v + 1 \<longrightarrow>
        fmlookup out ''Version'' = Some (num (v + 1))) \<and>
     (\<forall>pre. acts = pre @ [bump] \<longrightarrow> ''Version'' \<notin> action_name ` set pre \<longrightarrow> fmlookup old ''Version'' = None \<longrightarrow>
        fmlookup out ''Version'' = Some (num 1))"

definition update_law ::
    "'w client \<Rightarrow> string \<Rightarrow> ('w \<Rightarrow> table_key \<Rightarrow> item option) \<Rightarrow> (condition \<Rightarrow> item option \<Rightarrow> bool) \<Rightarrow>
     (go_int \<Rightarrow> attr_val) \<Rightarrow> bool" where
  "update_law C tbl view holds num \<longleftrightarrow>
     (\<forall>key acts c w k. primary_key key = Some k \<longrightarrow>
        (case UpdateItem C \<lparr>ui_table = tbl, ui_key = key, ui_update = Some acts, ui_condition = c,
            ui_return_all_new = True\<rparr> w of
           (Inr out, w') \<Rightarrow> (\<forall>c'. c = Some c' \<longrightarrow> holds c' (view w k)) \<and> view w' = (view w)(k := Some out) \<and>
             updated_by num acts (case view w k of None \<Rightarrow> key | Some old \<Rightarrow> old) out
         | (Inl e, w') \<Rightarrow> \<forall>c'. c = Some c' \<longrightarrow> \<not> holds c' (view w k) \<longrightarrow> view w' = view w))"

section \<open>Lemmas\<close>

lemma update_Ok:
  assumes "update_law C tbl view holds num" and "primary_key key = Some k"
    and "UpdateItem C \<lparr>ui_table = tbl, ui_key = key, ui_update = Some acts, ui_condition = c,
      ui_return_all_new = True\<rparr> w = (Inr out, w')"
  shows "\<forall>c'. c = Some c' \<longrightarrow> holds c' (view w k)" "view w' = (view w)(k := Some out)"
    "updated_by num acts (case view w k of None \<Rightarrow> key | Some old \<Rightarrow> old) out"
  using assms(1)[unfolded update_law_def, THEN spec, of key, THEN spec, of acts, THEN spec, of c,
      THEN spec, of w, THEN spec, of k, THEN mp, OF assms(2)] assms(3)
  by simp_all

lemma update_refused:
  assumes "update_law C tbl view holds num" and "primary_key key = Some k"
    and "\<not> holds c' (view w k)"
  shows "\<exists>e w'. UpdateItem C \<lparr>ui_table = tbl, ui_key = key, ui_update = Some acts, ui_condition = Some c',
      ui_return_all_new = True\<rparr> w = (Inl e, w') \<and> view w' = view w"
  using assms(1)[unfolded update_law_def, THEN spec, of key, THEN spec, of acts, THEN spec, of "Some c'",
      THEN spec, of w, THEN spec, of k, THEN mp, OF assms(2)] assms(3)
  by (auto split: prod.splits sum.splits)

lemma quiet_clock: "quiet L d view \<Longrightarrow> db_clock d w = (now, w') \<Longrightarrow> view w' = view w"
  unfolding quiet_def by (metis snd_conv)

text \<open>An update, taken apart: one clock reading, one conditional \<open>UpdateItem\<close> at the ID's key.\<close>

definition run_actions :: "('c, 'w) update_builder \<Rightarrow> int \<Rightarrow> 'c \<Rightarrow> update_action list" where
  "run_actions b now ctx = update_actions now (db_actor (ub_db b) ctx) (ub_ops b)"

lemma Update_run_eq:
  assumes "default_keyed (ub_type b)" and "\<And>ps. lib_build_error L ps = None"
    and "id_table_key L (ub_type b) (ub_id b) = (k, k)" and "db_clock (ub_db b) (world s) = (now, w)"
  shows "UpdateBuilder_Run L b ctx s =
    continue
      (map_fail (\<lambda>e. asOptimisticLockErr L e ''update'' (ub_type b) (ub_id b))
        (api (UpdateItem (db_client (ub_db b)))
          \<lparr>ui_table = db_table (ub_db b), ui_key = itemKey k k, ui_update = Some (run_actions b now ctx),
           ui_condition = map_option version_equals (ub_version b), ui_return_all_new = True\<rparr>
          (s\<lparr>world := w\<rparr>))) (\<lambda>out s.
      (wrap_fail (''godynamo: unmarshal '' @ id_text L (ub_type b) (ub_id b)) (unmarshal_fresh L (ub_type b) out), s))"
proof -
  obtain k' where "zeroKeys L (mem s) (ub_type b) (ub_id b) = Ok (k', k')"
      "id_table_key L (ub_type b) (ub_id b) = (k', k')"
    using zeroKeys_default[OF assms(1)] by blast
  with assms(3) have "zeroKeys L (mem s) (ub_type b) (ub_id b) = Ok (k, k)" by simp
  then show ?thesis
    using assms(2,4) requiresDefaultKey_default[OF assms(1)]
    by (simp add: UpdateBuilder_Run_def Let_def draw_def build_expr_def no_parts_def run_actions_def)
qed

text \<open>What the update starts from.\<close>

definition update_base :: "(table_key \<Rightarrow> item option) \<Rightarrow> table_key \<Rightarrow> item" where
  "update_base tab k = (case tab k of None \<Rightarrow> itemKey (fst k) (snd k) | Some old \<Rightarrow> old)"

lemma Update_run_Ok:
  assumes "default_keyed (ub_type b)" and "\<And>ps. lib_build_error L ps = None"
    and "update_law (db_client (ub_db b)) (db_table (ub_db b)) view holds num"
    and "UpdateBuilder_Run L b ctx s = (Ok v, s')"
  shows "\<exists>now w out w'. db_clock (ub_db b) (world s) = (now, w) \<and> s' = s\<lparr>world := w'\<rparr> \<and>
    (\<forall>x. ub_version b = Some x \<longrightarrow> holds (version_equals x) (view w (id_table_key L (ub_type b) (ub_id b)))) \<and>
    view w' = (view w)(id_table_key L (ub_type b) (ub_id b) := Some out) \<and>
    updated_by num (run_actions b now ctx) (update_base (view w) (id_table_key L (ub_type b) (ub_id b))) out \<and>
    unmarshal_fresh L (ub_type b) out = Ok v"
proof -
  obtain k where k: "id_table_key L (ub_type b) (ub_id b) = (k, k)" using zeroKeys_default[OF assms(1)] by blast
  obtain now w where c: "db_clock (ub_db b) (world s) = (now, w)" by fastforce
  obtain out w' where call: "UpdateItem (db_client (ub_db b))
      \<lparr>ui_table = db_table (ub_db b), ui_key = itemKey k k, ui_update = Some (run_actions b now ctx),
       ui_condition = map_option version_equals (ub_version b), ui_return_all_new = True\<rparr> w = (Inr out, w')"
    and s': "s' = s\<lparr>world := w'\<rparr>" and v: "unmarshal_fresh L (ub_type b) out = Ok v"
    using assms(4)
    by (fastforce simp: Update_run_eq[OF assms(1,2) k c] continue_Ok api_Ok)
  note upd = update_Ok[OF assms(3) primary_key_itemKey call]
  have "update_base (view w) (k, k) = (case view w (k, k) of None \<Rightarrow> itemKey k k | Some old \<Rightarrow> old)"
    by (simp add: update_base_def split: option.split)
  note base = upd(3)[folded this]
  show ?thesis
    unfolding k using c s' v upd(2) upd(1)[rule_format] base by blast
qed

text \<open>One whose version guard is false fails and leaves the table alone.\<close>

lemma Update_run_refused:
  assumes "default_keyed (ub_type b)" and "\<And>ps. lib_build_error L ps = None"
    and "update_law (db_client (ub_db b)) (db_table (ub_db b)) view holds num" and "quiet L (ub_db b) view"
    and "ub_version b = Some x"
    and "\<not> holds (version_equals x) (view (world s) (id_table_key L (ub_type b) (ub_id b)))"
    and "UpdateBuilder_Run L b ctx s = (r, s')"
  shows "view (world s') = view (world s) \<and> mem s' = mem s \<and>
    (\<exists>e. r = Fail (asOptimisticLockErr L e ''update'' (ub_type b) (ub_id b)))"
proof -
  obtain k where k: "id_table_key L (ub_type b) (ub_id b) = (k, k)" using zeroKeys_default[OF assms(1)] by blast
  obtain now w where c: "db_clock (ub_db b) (world s) = (now, w)" by fastforce
  have w: "view w = view (world s)" using quiet_clock[OF assms(4) c] .
  then have "\<not> holds (version_equals x) (view w (k, k))" using assms(6) k by simp
  from update_refused[OF assms(3) primary_key_itemKey this] obtain e w' where
    "UpdateItem (db_client (ub_db b))
      \<lparr>ui_table = db_table (ub_db b), ui_key = itemKey k k, ui_update = Some (run_actions b now ctx),
       ui_condition = Some (version_equals x), ui_return_all_new = True\<rparr> w = (Inl e, w')" "view w' = view w"
    by blast
  then show ?thesis
    using assms(5,7) w by (auto simp: Update_run_eq[OF assms(1,2) k c] api_def)
qed

definition op_action :: "update_op \<Rightarrow> update_action" where
  "op_action op = (if uo_add op then AddAction (uo_name op) (uo_val op) else SetAction (uo_name op) (uo_val op))"

lemma action_name_op [simp]: "action_name (op_action op) = uo_name op"
  by (simp add: op_action_def)

lemma run_actions_bump:
  "run_actions b now ctx =
     (SetAction ''UpdatedAt'' (Some (TTime, VTime now)) #
      SetAction ''UpdatedBy'' (Some (TString, VStr (db_actor (ub_db b) ctx))) # map op_action (ub_ops b)) @ [bump]"
  by (simp add: run_actions_def update_actions_def bump_def op_action_def)

lemma run_action_names:
  "action_name ` set (run_actions b now ctx) = {''UpdatedAt'', ''UpdatedBy'', ''Version''} \<union> uo_name ` set (ub_ops b)"
  by (auto simp: run_actions_bump bump_def image_image)

lemma run_bumps_version:
  assumes "updated_by num (run_actions b now ctx) old out"
    and "\<forall>op\<in>set (ub_ops b). uo_name op \<noteq> ''Version''"
    and "fmlookup old ''Version'' = Some (num v)" and "sint (v + 1) = sint v + 1"
  shows "fmlookup out ''Version'' = Some (num (v + 1))"
proof -
  have "''Version'' \<notin> action_name ` set (SetAction ''UpdatedAt'' (Some (TTime, VTime now)) #
      SetAction ''UpdatedBy'' (Some (TString, VStr (db_actor (ub_db b) ctx))) # map op_action (ub_ops b))"
    using assms(2) by (auto simp: image_image)
  with assms(1,3,4) show ?thesis unfolding updated_by_def run_actions_bump by blast
qed

lemma run_starts_version:
  assumes "updated_by num (run_actions b now ctx) old out"
    and "\<forall>op\<in>set (ub_ops b). uo_name op \<noteq> ''Version''" and "fmlookup old ''Version'' = None"
  shows "fmlookup out ''Version'' = Some (num 1)"
proof -
  have "''Version'' \<notin> action_name ` set (SetAction ''UpdatedAt'' (Some (TTime, VTime now)) #
      SetAction ''UpdatedBy'' (Some (TString, VStr (db_actor (ub_db b) ctx))) # map op_action (ub_ops b))"
    using assms(2) by (auto simp: image_image)
  with assms(1,3) show ?thesis unfolding updated_by_def run_actions_bump by blast
qed

text \<open>After a bump, the old version guard is false.\<close>

lemma bumped_version_differs:
  assumes "condition_law num holds" and "fmlookup out ''Version'' = Some (num (v + 1))"
  shows "\<not> holds (version_equals v) (Some out)"
proof -
  have "num (v + 1) \<noteq> num v" using assms(1) by (auto simp: condition_law_def inj_eq)
  with assms show ?thesis by (simp add: condition_law_def)
qed

section \<open>Properties\<close>

text \<open>
  C5: A successful update of a stored entity adds one to its version, whether or not it was guarded
  by \<open>IfVersion\<close>, and keeps every attribute that it does not name (keys and type index
  attribute among them); every other item of the table stays.
\<close>

theorem update_bumps_version:
  assumes "default_keyed (ub_type b)" and "\<And>ps. lib_build_error L ps = None"
    and "update_law (db_client (ub_db b)) (db_table (ub_db b)) view holds num" and "quiet L (ub_db b) view"
    and "\<forall>op\<in>set (ub_ops b). uo_name op \<noteq> ''Version''"
    and "view (world s) (id_table_key L (ub_type b) (ub_id b)) = Some old"
    and "fmlookup old ''Version'' = Some (num v)" and "sint (v + 1) = sint v + 1"
    and "UpdateBuilder_Run L b ctx s = (Ok x, s')"
  shows "\<exists>out. view (world s') = (view (world s))(id_table_key L (ub_type b) (ub_id b) := Some out) \<and>
    fmlookup out ''Version'' = Some (num (v + 1)) \<and>
    (\<forall>n. n \<notin> {''UpdatedAt'', ''UpdatedBy'', ''Version''} \<union> uo_name ` set (ub_ops b) \<longrightarrow>
      fmlookup out n = fmlookup old n) \<and>
    unmarshal_fresh L (ub_type b) out = Ok x"
proof -
  from Update_run_Ok[OF assms(1,2,3,9)] obtain now w out w' where u:
    "db_clock (ub_db b) (world s) = (now, w)" "s' = s\<lparr>world := w'\<rparr>"
    "view w' = (view w)(id_table_key L (ub_type b) (ub_id b) := Some out)"
    "updated_by num (run_actions b now ctx) (update_base (view w) (id_table_key L (ub_type b) (ub_id b))) out"
    "unmarshal_fresh L (ub_type b) out = Ok x"
    by blast
  have w: "view w = view (world s)" using quiet_clock[OF assms(4) u(1)] .
  then have ub: "updated_by num (run_actions b now ctx) old out" using u(4) assms(6) by (simp add: update_base_def)
  have "fmlookup out ''Version'' = Some (num (v + 1))"
    by (rule run_bumps_version[OF ub assms(5,7,8)])
  moreover have "\<forall>n. n \<notin> {''UpdatedAt'', ''UpdatedBy'', ''Version''} \<union> uo_name ` set (ub_ops b) \<longrightarrow>
      fmlookup out n = fmlookup old n"
    using ub unfolding updated_by_def run_action_names by blast
  ultimately show ?thesis using u(2,3,5) w by (intro exI[of _ out]) simp
qed

text \<open>
  C6: Updating an ID that has no item: with \<open>IfVersion\<close> the update fails and the table stays as it was;
  without, it creates an item at version 1 that has the key, the two audit fields and the attributes
  the update names, but none of the others: no \<open>ID\<close>, \<open>Type\<close>, \<open>CreatedAt\<close> or type-index attribute.
\<close>

theorem update_of_missing_item:
  assumes "default_keyed (ub_type b)" and "\<And>ps. lib_build_error L ps = None"
    and "update_law (db_client (ub_db b)) (db_table (ub_db b)) view holds num" and "quiet L (ub_db b) view"
    and "condition_law num holds"
    and "\<forall>op\<in>set (ub_ops b). uo_name op \<noteq> ''Version''"
    and "view (world s) (id_table_key L (ub_type b) (ub_id b)) = None"
    and "UpdateBuilder_Run L b ctx s = (r, s')"
  shows "(ub_version b \<noteq> None \<longrightarrow> (\<exists>e. r = Fail e) \<and> view (world s') = view (world s)) \<and>
    (\<forall>x. r = Ok x \<longrightarrow> (\<exists>out. view (world s') = (view (world s))(id_table_key L (ub_type b) (ub_id b) := Some out) \<and>
      fmlookup out ''Version'' = Some (num 1) \<and>
      (\<forall>n. n \<notin> {''PK'', ''SK'', ''UpdatedAt'', ''UpdatedBy'', ''Version''} \<union> uo_name ` set (ub_ops b) \<longrightarrow>
        fmlookup out n = None) \<and>
      unmarshal_fresh L (ub_type b) out = Ok x))"
proof (intro conjI allI impI)
  assume "ub_version b \<noteq> None"
  then obtain v where v: "ub_version b = Some v" by blast
  have "\<not> holds (version_equals v) (view (world s) (id_table_key L (ub_type b) (ub_id b)))"
    using assms(5,7) by (auto simp: condition_law_def)
  from Update_run_refused[OF assms(1-4) v this assms(8)]
  show "\<exists>e. r = Fail e" and "view (world s') = view (world s)" by auto
next
  fix x
  assume "r = Ok x"
  let ?k = "id_table_key L (ub_type b) (ub_id b)"
  from Update_run_Ok[OF assms(1-3) assms(8)[unfolded \<open>r = Ok x\<close>]] obtain now w out w' where u:
    "db_clock (ub_db b) (world s) = (now, w)" "s' = s\<lparr>world := w'\<rparr>" "view w' = (view w)(?k := Some out)"
    "updated_by num (run_actions b now ctx) (update_base (view w) ?k) out" "unmarshal_fresh L (ub_type b) out = Ok x"
    by blast
  have w: "view w = view (world s)" using quiet_clock[OF assms(4) u(1)] .
  then have ub: "updated_by num (run_actions b now ctx) (itemKey (fst ?k) (snd ?k)) out"
    using u(4) assms(7) by (simp add: update_base_def)
  have "fmlookup (itemKey (fst ?k) (snd ?k)) ''Version'' = None" by (simp add: itemKey_def)
  from run_starts_version[OF ub assms(6) this] have "fmlookup out ''Version'' = Some (num 1)" .
  moreover have "fmlookup out n = None"
    if "n \<notin> {''PK'', ''SK'', ''UpdatedAt'', ''UpdatedBy'', ''Version''} \<union> uo_name ` set (ub_ops b)" for n
  proof -
    have "n \<notin> action_name ` set (run_actions b now ctx)" using that unfolding run_action_names by simp
    then have "fmlookup out n = fmlookup (itemKey (fst ?k) (snd ?k)) n"
      using ub[unfolded updated_by_def, THEN conjunct1] by simp
    then show ?thesis using that by (auto simp: itemKey_def)
  qed
  ultimately show "\<exists>out. view (world s') = (view (world s))(?k := Some out) \<and>
      fmlookup out ''Version'' = Some (num 1) \<and>
      (\<forall>n. n \<notin> {''PK'', ''SK'', ''UpdatedAt'', ''UpdatedBy'', ''Version''} \<union> uo_name ` set (ub_ops b) \<longrightarrow>
        fmlookup out n = None) \<and>
      unmarshal_fresh L (ub_type b) out = Ok x"
    using u(2,3,5) w by (intro exI[of _ out]) simp
qed

text \<open>
  C3: Of two updates of one entity that expect the same version (\<open>IfVersion\<close>), at most one
  succeeds: after the first, the second fails and leaves the table and memory alone, and its error is
  \<open>ErrOptimisticLock\<close> when the service says that the condition failed.
\<close>

theorem guarded_update_exclusive:
  assumes "default_keyed (ub_type b)" and "\<And>ps. lib_build_error L ps = None"
    and "update_law (db_client (ub_db b)) (db_table (ub_db b)) view holds num" and "quiet L (ub_db b) view"
    and "condition_law num holds"
    and "\<forall>op\<in>set (ub_ops b). uo_name op \<noteq> ''Version''"
    and "ub_version b = Some v" and "sint (v + 1) = sint v + 1"
    and "ub_type b' = ub_type b" and "ub_db b' = ub_db b" and "ub_id b' = ub_id b" and "ub_version b' = Some v"
    and "UpdateBuilder_Run L b ctx s = (Ok x, s1)" and "UpdateBuilder_Run L b' ctx' s1 = (r, s2)"
  shows "view (world s2) = view (world s1) \<and> mem s2 = mem s1 \<and>
    (\<exists>e. r = Fail (asOptimisticLockErr L e ''update'' (ub_type b) (ub_id b)) \<and>
      (as_cond_check_failed e \<noteq> None \<longrightarrow>
        errors_is (asOptimisticLockErr L e ''update'' (ub_type b) (ub_id b)) ErrOptimisticLock))"
proof -
  let ?k = "id_table_key L (ub_type b) (ub_id b)"
  from Update_run_Ok[OF assms(1,2,3,13)] obtain now w out w' where u:
    "db_clock (ub_db b) (world s) = (now, w)" "s1 = s\<lparr>world := w'\<rparr>" "holds (version_equals v) (view w ?k)"
    "view w' = (view w)(?k := Some out)" "updated_by num (run_actions b now ctx) (update_base (view w) ?k) out"
    using assms(7) by blast
  obtain old where old: "view w ?k = Some old" "fmlookup old ''Version'' = Some (num v)"
    using u(3) assms(5) by (auto simp: condition_law_def)
  then have ub: "updated_by num (run_actions b now ctx) old out" using u(5) by (simp add: update_base_def)
  have new: "fmlookup out ''Version'' = Some (num (v + 1))"
    by (rule run_bumps_version[OF ub assms(6) old(2) assms(8)])
  have bad: "\<not> holds (version_equals v) (view (world s1) (id_table_key L (ub_type b') (ub_id b')))"
    using bumped_version_differs[OF assms(5) new] assms(9,11) u(2,4) by simp
  have b': "default_keyed (ub_type b')" "update_law (db_client (ub_db b')) (db_table (ub_db b')) view holds num"
    "quiet L (ub_db b') view" using assms(1,3,4,9,10) by simp_all
  from Update_run_refused[OF b'(1) assms(2) b'(2,3) assms(12) bad assms(14)] assms(9,11)
  show ?thesis by (auto simp: asOptimisticLockErr_def)
qed

text \<open>
  C4: An update also defeats stale copies in memory: after it, a \<open>Put\<close> of an entity loaded
  before it fails and leaves the table alone.
\<close>

theorem stale_put_after_update_fails:
  assumes "default_keyed (ub_type b)" and "\<And>ps. lib_build_error L ps = None"
    and "update_law (db_client (ub_db b)) (db_table (ub_db b)) view holds num" and "quiet L (ub_db b) view"
    and "condition_law num holds"
    and "\<forall>op\<in>set (ub_ops b). uo_name op \<noteq> ''Version''"
    and "version_law L (ub_type b) num" and "table_law (db_client (ub_db b)) (db_table (ub_db b)) view holds"
    and "db_gsi1PKAttr (ub_db b) \<notin> {''PK'', ''SK'', ''Version''}"
    and "view (world s) (id_table_key L (ub_type b) (ub_id b)) = Some old"
    and "entity (mem s) (ub_type b) a m" and "m_ID m = ub_id b" and "m_CreatedAt m \<noteq> 0"
    and "fmlookup old ''Version'' = Some (num (m_Version m))" and "sint (m_Version m + 1) = sint (m_Version m) + 1"
    and "UpdateBuilder_Run L b ctx s = (Ok x, s1)"
    and "Put L (ub_db b) (ub_type b) ctx' (Some a) s1 = (r, s2)"
    and "stampAndMarshal L (ub_db b) ctx' (ptr (ub_type b) a) s1 = (Ok y, s3)"
  shows "view (world s2) = view (world s1) \<and>
    (\<exists>e i. r = Fail (asOptimisticLockErr L e ''put'' (ub_type b) i))"
proof -
  let ?k = "id_table_key L (ub_type b) (ub_id b)"
  from Update_run_Ok[OF assms(1,2,3,16)] obtain now w out w' where u:
    "db_clock (ub_db b) (world s) = (now, w)" "s1 = s\<lparr>world := w'\<rparr>"
    "view w' = (view w)(?k := Some out)" "updated_by num (run_actions b now ctx) (update_base (view w) ?k) out"
    by blast
  have w: "view w = view (world s)" using quiet_clock[OF assms(4) u(1)] .
  then have ub: "updated_by num (run_actions b now ctx) old out" using u(4) assms(10) by (simp add: update_base_def)
  have new: "fmlookup out ''Version'' = Some (num (m_Version m + 1))"
    by (rule run_bumps_version[OF ub assms(6,14,15)])
  have stale: "\<not> holds (version_equals (m_Version m)) (view (world s1) ?k)"
    using bumped_version_differs[OF assms(5) new] u(2,3) by simp
  have e: "entity (mem s1) (ub_type b) a m" using assms(11) u(2) by simp
  have "primary_key av = Some ?k \<and> \<not> holds cond (view (world s1) ?k)"
    if "stampAndMarshal L (ub_db b) ctx' (ptr (ub_type b) a) s1 = (Ok (av, cond), s4)" for av cond s4
    using stamped_item[OF e assms(1,7,9) that] assms(12,13) stale by auto
  from Put_condition_false[OF e assms(4,8,17) this assms(2,18)] show ?thesis .
qed

text \<open>
  C23: Deleted is not found: a \<open>Get\<close> right after a successful \<open>Delete\<close> of the same ID reports
  \<open>ErrNotFound\<close>, unless the call of the service fails or the service shows an item that the key had before
  the \<open>Delete\<close> (the read is eventually consistent).
\<close>

theorem deleted_is_not_found:
  assumes "default_keyed t" and "read_law (db_client d) (db_table d) versions"
    and "Delete L d t i s = (Ok (), s1)" and "Get L d t i s1 = (r, s2)"
  shows "r = Fail (Wrapped (''godynamo: get '' @ id_text L t i) ErrNotFound) \<or>
    (\<exists>old. Some old \<in> versions (world s) (id_table_key L t i) \<inter> versions (world s1) (id_table_key L t i) \<and>
      r = get_result L t i (Some old)) \<or>
    read_failed L d t i s1 r"
proof -
  obtain k where k: "zeroKeys L (mem s) t i = Ok (k, k)" "id_table_key L t i = (k, k)"
    using zeroKeys_default[OF assms(1)] by blast
  obtain w where del: "DeleteItem (db_client d) \<lparr>ki_table = db_table d, ki_key = itemKey k k\<rparr> (world s) = (Inr (), w)"
      "s1 = s\<lparr>world := w\<rparr>"
    using assms(3) requiresDefaultKey_default[OF assms(1)]
    by (auto simp: Delete_def k api_def split: prod.splits)
  have vs: "versions (world s1) (id_table_key L t i) \<subseteq> insert None (versions (world s) (id_table_key L t i))"
    using read_delete[OF assms(2) primary_key_itemKey del(1)] del(2) k(2) by simp
  have none: "get_result L t i None = Fail (Wrapped (''godynamo: get '' @ id_text L t i) ErrNotFound)"
    by (simp add: get_result_def)
  consider v where "v \<in> versions (world s1) (id_table_key L t i)" "r = get_result L t i v"
    | "read_failed L d t i s1 r"
    using Get_reads[OF assms(1,2,4)] by blast
  then show ?thesis
  proof cases
    case 1
    with vs none show ?thesis by (cases v) auto
  qed simp
qed

section \<open>Witnesses\<close>

lemma fold_actions_other:
  "n \<notin> action_name ` set acts \<Longrightarrow> fmlookup (fold apply_action acts it) n = fmlookup it n"
proof (induction acts arbitrary: it)
  case (Cons a acts)
  have "fmlookup (apply_action a it) n = fmlookup it n"
    using Cons.prems by (cases "(a, it)" rule: apply_action.cases) (auto split: option.splits attr_val.splits)
  with Cons show ?case by simp
qed simp

lemma sample_updated_by: "updated_by num_attr acts old (fold apply_action acts old)"
proof -
  have "fmlookup (fold apply_action (pre @ [bump]) old) ''Version'' = Some (num_attr (v + 1))"
    if "''Version'' \<notin> action_name ` set pre" "fmlookup old ''Version'' = Some (num_attr v)" "sint (v + 1) = sint v + 1"
    for pre v
    using that by (simp add: fold_actions_other bump_def num_attr_def)
  moreover have "fmlookup (fold apply_action (pre @ [bump]) old) ''Version'' = Some (num_attr 1)"
    if "''Version'' \<notin> action_name ` set pre" "fmlookup old ''Version'' = None" for pre
    using that by (simp add: fold_actions_other bump_def num_attr_def)
  ultimately show ?thesis unfolding updated_by_def using fold_actions_other by blast
qed

lemma sample_update_law: "update_law sample_client ''t'' sample_view sample_cond num_attr"
  by (auto simp: update_law_def sample_update_def primary_key_key_of opt_cond_def sample_view_def Let_def
      fun_eq_iff sample_updated_by split: option.splits)

text \<open>A stored task, and an update that closes it.\<close>

definition saved_world :: sworld where
  "saved_world = empty_world\<lparr>sw_table := fmupd (''Task#5'', ''Task#5'') (task_item True saved_model ''n'') fmempty\<rparr>"

definition close_task :: "(unit, sworld) update_builder" where
  "close_task = UpdateBuilder_IfVersion
     (UpdateBuilder_Set (Update task_type sample_db 5) ''Status'' (Some (TString, VStr ''done''))) 1"

lemma task_status_attr: "resolve_attr_name task_type ''Status'' = ''Status''"
proof -
  have "field_by_name task_type ''Status'' = Some ([2], GField ''Status'' False [] TString)"
    by (simp add: field_search task_type_def model_type_def)
  then show ?thesis by (simp add: resolve_attr_name_def tag_lookup_def)
qed

lemma close_task_fields [simp]:
  "ub_type close_task = task_type" "ub_db close_task = sample_db" "ub_id close_task = 5"
  "ub_ops close_task = [\<lparr>uo_name = ''Status'', uo_val = Some (TString, VStr ''done''), uo_add = False\<rparr>]"
  "ub_version close_task = Some 1"
  by (simp_all add: close_task_def Update_def UpdateBuilder_Set_def UpdateBuilder_IfVersion_def
      task_status_attr)

lemma task_reads_into:
  assumes "fmlookup it ''Notes'' = Some (AVB (0x1f # 0x8b # b))"
  shows "\<exists>v'. unmarshal_value sample_lib it task_type v = (Ok (), v')"
  using assms
  by (simp add: unmarshal_value_def parse_task extractCompressedFields_def task_notes_attr
      Let_def unmarshal_map_into_def decompressJSON_def task_fields sample_lib_def split: prod.splits)

lemma task_reads:
  assumes "fmlookup it ''Notes'' = Some (AVB (0x1f # 0x8b # b))"
  shows "\<exists>v. unmarshal_fresh sample_lib task_type it = Ok v"
  using task_reads_into[OF assms, of "zero_value task_type"] by (auto simp: unmarshal_fresh_def)

lemma id_key_5: "id_table_key sample_lib task_type 5 = (''Task#5'', ''Task#5'')"
  by (simp add: id_table_key_def nat_string.simps Let_def)

lemma saved_task_facts:
  "sample_view saved_world (''Task#5'', ''Task#5'') = Some (task_item True saved_model ''n'')"
  "fmlookup (task_item c saved_model n) ''Version'' = Some (num_attr 1)"
  "fmlookup (task_item c saved_model n) ''Notes'' = Some (AVB (0x1f # 0x8b # map (\<lambda>c. word_of_nat (of_char c)) n))"
  by (simp_all add: saved_world_def sample_view_def task_item_def Let_def task_leaf_lookup num_attr_def)


text \<open>The state after closing the saved task, with a stale copy of it at address 0.\<close>

definition saved_st :: "sworld st" where
  "saved_st = task_st saved_model ''n'' saved_world"

lemma saved_st_facts [simp]:
  "entity (mem saved_st) task_type 0 saved_model"
  "sample_view (world saved_st) (id_table_key sample_lib task_type 5) = Some (task_item True saved_model ''n'')"
  using task_entity[of "mem saved_st" 0 saved_model "''n''"]
  by (simp_all add: saved_st_def task_st_def id_key_5 saved_task_facts)

lemma close_task_runs:
  "\<exists>v s1. UpdateBuilder_Run sample_lib close_task () saved_st = (Ok v, s1)"
proof -
  have c: "db_clock (ub_db close_task) (world saved_st) =
      (sw_time saved_world, saved_world\<lparr>sw_time := sw_time saved_world + 1\<rparr>)"
    by (simp add: saved_st_def task_st_def)
  let ?acts = "run_actions close_task (sw_time saved_world) ()"
  let ?it = "fold apply_action ?acts (task_item True saved_model ''n'')"
  have "''Notes'' \<notin> action_name ` set ?acts" by (simp add: run_action_names)
  from fold_actions_other[OF this] saved_task_facts(3)
  have "fmlookup ?it ''Notes'' = Some (AVB (0x1f # 0x8b # map (\<lambda>c. word_of_nat (of_char c)) ''n''))"
    by (rule trans)
  from task_reads[OF this] obtain v where v: "unmarshal_fresh sample_lib task_type ?it = Ok v" by blast
  have k: "key_of (itemKey ''Task#5'' ''Task#5'') = (''Task#5'', ''Task#5'')"
    by (simp add: key_of_def itemKey_def)
  have look: "fmlookup (sw_table saved_world) (''Task#5'', ''Task#5'') = Some (task_item True saved_model ''n'')"
    using saved_task_facts(1) by (simp add: sample_view_def)
  have cond: "sample_cond (version_equals 1) (Some (task_item True saved_model ''n''))"
    by (simp add: version_equals_def saved_task_facts(2)) (simp add: num_attr_def)
  show ?thesis
    by (simp add: Update_run_eq[OF _ _ _ c] task_default_keyed id_key_5 api_def sample_update_def Let_def k
        look opt_cond_def cond v)
qed


lemma close_task_laws:
  "default_keyed (ub_type close_task)"
  "update_law (db_client (ub_db close_task)) (db_table (ub_db close_task)) sample_view sample_cond num_attr"
  "quiet sample_lib (ub_db close_task) sample_view"
  "\<forall>op\<in>set (ub_ops close_task). uo_name op \<noteq> ''Version''"
  "\<And>ps. lib_build_error sample_lib ps = None"
  by (simp_all add: task_default_keyed sample_update_law sample_quiet)

theorem update_bumps_version_witness:
  "\<exists>v s1 out. UpdateBuilder_Run sample_lib close_task () saved_st = (Ok v, s1) \<and>
    sample_view (world s1) (''Task#5'', ''Task#5'') = Some out \<and> fmlookup out ''Version'' = Some (num_attr 2)"
proof -
  obtain v s1 where run: "UpdateBuilder_Run sample_lib close_task () saved_st = (Ok v, s1)"
    using close_task_runs by blast
  have old: "sample_view (world saved_st) (id_table_key sample_lib (ub_type close_task) (ub_id close_task)) =
      Some (task_item True saved_model ''n'')" by simp
  from update_bumps_version[OF close_task_laws(1,5,2,3,4) old saved_task_facts(2) _ run]
  obtain out where "sample_view (world s1) =
      (sample_view (world saved_st))(id_table_key sample_lib task_type 5 := Some out)"
    "fmlookup out ''Version'' = Some (num_attr (1 + 1))" by auto
  with run show ?thesis by (auto simp: id_key_5)
qed

text \<open>A blind update of a task that is not stored.\<close>

definition blind_close :: "(unit, sworld) update_builder" where
  "blind_close = UpdateBuilder_Set (Update task_type sample_db 5) ''Status'' (Some (TString, VStr ''done''))"

lemma blind_close_fields [simp]:
  "ub_type blind_close = task_type" "ub_db blind_close = sample_db" "ub_id blind_close = 5"
  "ub_ops blind_close = [\<lparr>uo_name = ''Status'', uo_val = Some (TString, VStr ''done''), uo_add = False\<rparr>]"
  "ub_version blind_close = None"
  by (simp_all add: blind_close_def Update_def UpdateBuilder_Set_def task_status_attr)

lemma task_reads_uncompressed:
  assumes "fmlookup it ''Notes'' = None"
  shows "\<exists>v. unmarshal_fresh sample_lib task_type it = Ok v"
  using assms
  by (simp add: unmarshal_fresh_def unmarshal_value_def parse_task extractCompressedFields_def task_notes_attr
      Let_def unmarshal_map_into_def sample_lib_def split: prod.splits)

theorem update_of_missing_item_witness:
  "\<exists>x s' out. UpdateBuilder_Run sample_lib blind_close () (task_st saved_model ''n'' empty_world) = (Ok x, s') \<and>
    sample_view (world s') (''Task#5'', ''Task#5'') = Some out \<and> fmlookup out ''ID'' = None \<and>
    fmlookup out ''Version'' = Some (num_attr 1)"
proof -
  let ?s = "task_st saved_model ''n'' empty_world"
  have c: "db_clock (ub_db blind_close) (world ?s) =
      (sw_time empty_world, empty_world\<lparr>sw_time := sw_time empty_world + 1\<rparr>)"
    by (simp add: task_st_def)
  let ?acts = "run_actions blind_close (sw_time empty_world) ()"
  let ?it = "fold apply_action ?acts (itemKey ''Task#5'' ''Task#5'')"
  have "fmlookup ?it ''Notes'' = None"
    using fold_actions_other[of "''Notes''" ?acts "itemKey ''Task#5'' ''Task#5''"] by (simp add: run_action_names itemKey_def)
  from task_reads_uncompressed[OF this] obtain v where v: "unmarshal_fresh sample_lib task_type ?it = Ok v" by blast
  have none: "fmlookup (sw_table empty_world) k = None" for k by (simp add: empty_world_def)
  obtain s' where run: "UpdateBuilder_Run sample_lib blind_close () ?s = (Ok v, s')"
    using v by (simp add: Update_run_eq[OF _ _ _ c] task_default_keyed id_key_5 api_def sample_update_def Let_def
        primary_key_key_of[OF primary_key_itemKey] none opt_cond_def)
  have missing: "sample_view (world ?s) (id_table_key sample_lib (ub_type blind_close) (ub_id blind_close)) = None"
    by (simp add: task_st_def sample_view_def empty_world_def)
  have laws: "default_keyed (ub_type blind_close)" "\<And>ps. lib_build_error sample_lib ps = None"
    "update_law (db_client (ub_db blind_close)) (db_table (ub_db blind_close)) sample_view sample_cond num_attr"
    "quiet sample_lib (ub_db blind_close) sample_view" "\<forall>op\<in>set (ub_ops blind_close). uo_name op \<noteq> ''Version''"
    by (simp_all add: task_default_keyed sample_update_law sample_quiet)
  from update_of_missing_item[OF laws(1-4) sample_condition_law laws(5) missing run, THEN conjunct2,
      THEN spec, THEN mp, OF refl] obtain out where out:
    "sample_view (world s') = (sample_view (world ?s))
      (id_table_key sample_lib (ub_type blind_close) (ub_id blind_close) := Some out)"
    "fmlookup out ''Version'' = Some (num_attr 1)"
    "\<forall>n. n \<notin> {''PK'', ''SK'', ''UpdatedAt'', ''UpdatedBy'', ''Version''} \<union> uo_name ` set (ub_ops blind_close) \<longrightarrow>
      fmlookup out n = None" by blast
  have "sample_view (world s') (''Task#5'', ''Task#5'') = Some out" using out(1) by (simp add: id_key_5)
  moreover have "fmlookup out ''ID'' = None" using out(3)[rule_format, of "''ID''"] by simp
  ultimately show ?thesis using run out(2) by blast
qed

theorem guarded_update_exclusive_witness:
  "\<exists>v s1 r s2. UpdateBuilder_Run sample_lib close_task () saved_st = (Ok v, s1) \<and>
    UpdateBuilder_Run sample_lib close_task () s1 = (r, s2) \<and> sample_view (world s2) = sample_view (world s1) \<and>
    (\<exists>e. r = Fail e)"
proof -
  obtain v s1 where run: "UpdateBuilder_Run sample_lib close_task () saved_st = (Ok v, s1)"
    using close_task_runs by blast
  obtain r s2 where again: "UpdateBuilder_Run sample_lib close_task () s1 = (r, s2)" by fastforce
  have "sint ((1 :: go_int) + 1) = sint (1 :: go_int) + 1" by simp
  from guarded_update_exclusive[OF close_task_laws(1,5,2,3) sample_condition_law close_task_laws(4) close_task_fields(5)
      this refl refl refl close_task_fields(5) run again] run again
  show ?thesis by auto
qed

theorem stale_put_after_update_fails_witness:
  "\<exists>v s1 r s2. UpdateBuilder_Run sample_lib close_task () saved_st = (Ok v, s1) \<and>
    Put sample_lib sample_db task_type () (Some 0) s1 = (r, s2) \<and>
    sample_view (world s2) = sample_view (world s1) \<and> (\<exists>e. r = Fail e)"
proof -
  obtain v s1 where run: "UpdateBuilder_Run sample_lib close_task () saved_st = (Ok v, s1)"
    using close_task_runs by blast
  from Update_run_Ok[OF close_task_laws(1,5,2) run] have "mem s1 = mem saved_st" by auto
  then have m1: "mem s1 0 = task_value saved_model ''n''" by (simp add: saved_st_def task_st_def)
  obtain r s2 where put: "Put sample_lib (ub_db close_task) (ub_type close_task) () (Some 0) s1 = (r, s2)" by fastforce
  obtain y s3 where st: "stampAndMarshal sample_lib (ub_db close_task) () (ptr (ub_type close_task) 0) s1 = (Ok y, s3)"
    using task_update[of s1 0, OF m1] by (auto simp: Let_def)
  have old: "sample_view (world saved_st) (id_table_key sample_lib (ub_type close_task) (ub_id close_task)) =
      Some (task_item True saved_model ''n'')" by simp
  have laws: "version_law sample_lib (ub_type close_task) num_attr"
    "table_law (db_client (ub_db close_task)) (db_table (ub_db close_task)) sample_view sample_cond"
    "db_gsi1PKAttr (ub_db close_task) \<notin> {''PK'', ''SK'', ''Version''}"
    "entity (mem saved_st) (ub_type close_task) 0 saved_model" "m_ID saved_model = ub_id close_task"
    "m_CreatedAt saved_model \<noteq> 0"
    "fmlookup (task_item True saved_model ''n'') ''Version'' = Some (num_attr (m_Version saved_model))"
    "sint (m_Version saved_model + 1) = sint (m_Version saved_model) + 1"
    by (simp_all add: task_version_law sample_table_law saved_task_facts)
  from stale_put_after_update_fails[OF close_task_laws(1,5,2,3) sample_condition_law close_task_laws(4) laws(1-3) old
      laws(4-8) run put st] run put
  show ?thesis by auto
qed

theorem deleted_is_not_found_witness:
  "\<exists>s1 s2 e. Delete sample_lib sample_db task_type 5 saved_st = (Ok (), s1) \<and>
    Get sample_lib sample_db task_type 5 s1 = (Fail e, s2) \<and> errors_is e ErrNotFound"
proof -
  obtain k where k: "zeroKeys sample_lib (mem saved_st) task_type 5 = Ok (k, k)"
      "id_table_key sample_lib task_type 5 = (k, k)"
    using zeroKeys_default[OF task_default_keyed] by blast
  then obtain s1 where del: "Delete sample_lib sample_db task_type 5 saved_st = (Ok (), s1)"
      and gone: "sample_view (world s1) (k, k) = None"
    by (simp add: Delete_def requiresDefaultKey_default[OF task_default_keyed] api_def sample_delete_def
        primary_key_key_of[OF primary_key_itemKey] sample_view_def)
  obtain r s2 where get: "Get sample_lib sample_db task_type 5 s1 = (r, s2)" by fastforce
  have "read_law (db_client sample_db) (db_table sample_db) sample_versions" by (simp add: sample_read_law)
  from deleted_is_not_found[OF task_default_keyed this del get] k(2) gone
  have "r = Fail (Wrapped (''godynamo: get '' @ id_text sample_lib task_type 5) ErrNotFound)"
    by (auto simp: sample_versions_def read_failed_def sample_get_def)
  with del get show ?thesis by auto
qed

end
