(* ===== verification/Table_Writes.thy ===== *)
theory Table_Writes
  imports Table_Ops
begin

text \<open>
  Sequences of writes on a table, each of one key at most: what the batches and the transactions
  have in common. Writes of different keys commute, so the order in which a service applies them does
  not matter.
\<close>

section \<open>Separate keys\<close>

definition separate_by :: "('r \<Rightarrow> table_key option) \<Rightarrow> 'r list \<Rightarrow> bool" where
  "separate_by key rs \<longleftrightarrow> distinct (List.map_filter key rs)"

lemma separate_by_Nil [simp]: "separate_by key []"
  by (simp add: separate_by_def map_filter_simps)

lemma separate_by_Cons:
  "separate_by key (r # rs) \<longleftrightarrow>
   (\<forall>k. key r = Some k \<longrightarrow> (\<forall>r'\<in>set rs. key r' \<noteq> Some k)) \<and> separate_by key rs"
proof -
  have "k \<in> set (List.map_filter key rs) \<longleftrightarrow> (\<exists>r'\<in>set rs. key r' = Some k)" for k
    by (force simp: List.map_filter_def image_iff)
  then show ?thesis by (auto simp: separate_by_def map_filter_simps split: option.split)
qed

lemma separate_by_mset:
  assumes "mset rs = mset rs'"
  shows "separate_by key rs \<longleftrightarrow> separate_by key rs'"
proof -
  have "mset (List.map_filter key rs) =
      image_mset (the \<circ> key) (filter_mset (\<lambda>r. key r \<noteq> None) (mset rs))" for rs
    by (simp add: List.map_filter_def mset_filter)
  with assms have "mset (List.map_filter key rs) = mset (List.map_filter key rs')" by simp
  then show ?thesis unfolding separate_by_def by (rule mset_eq_imp_distinct_iff)
qed

lemma separate_by_unique:
  "separate_by key rs \<Longrightarrow> r \<in> set rs \<Longrightarrow> r' \<in> set rs \<Longrightarrow> key r = Some k \<Longrightarrow> key r' = Some k \<Longrightarrow> r = r'"
proof (induction rs)
  case (Cons x rs)
  then show ?case unfolding separate_by_Cons by (metis set_ConsD)
qed simp

text \<open>Fewer keys stay separate.\<close>

lemma separate_by_restrict:
  assumes "\<And>r k. key' r = Some k \<Longrightarrow> key r = Some k"
  shows "separate_by key rs \<Longrightarrow> separate_by key' rs"
proof (induction rs)
  case (Cons r rs)
  then show ?case unfolding separate_by_Cons using assms by blast
qed simp

section \<open>Applying writes\<close>

locale keyed_writes =
  fixes apply_one :: "'r \<Rightarrow> (table_key \<Rightarrow> item option) \<Rightarrow> table_key \<Rightarrow> item option"
    and target :: "'r \<Rightarrow> table_key option"
    and result :: "'r \<Rightarrow> item option"
  assumes apply_eq: "apply_one r tab = (case target r of None \<Rightarrow> tab | Some k \<Rightarrow> tab(k := result r))"
begin

lemma fold_other:
  "\<forall>r\<in>set rs. target r \<noteq> Some k \<Longrightarrow> fold apply_one rs tab k = tab k"
  by (induction rs arbitrary: tab) (auto simp: apply_eq split: option.splits)

lemma fold_at:
  "separate_by target rs \<Longrightarrow> r \<in> set rs \<Longrightarrow> target r = Some k \<Longrightarrow> fold apply_one rs tab k = result r"
proof (induction rs arbitrary: tab)
  case (Cons r' rs)
  show ?case
  proof (cases "r' = r")
    case True
    with Cons.prems have "\<forall>r\<in>set rs. target r \<noteq> Some k" by (auto simp: separate_by_Cons)
    from fold_other[OF this] Cons.prems(3) True show ?thesis by (simp add: apply_eq[of r])
  next
    case False
    with Cons show ?thesis by (auto simp: separate_by_Cons)
  qed
qed simp

lemma fold_order:
  assumes "separate_by target rs" and "mset rs = mset rs'"
  shows "fold apply_one rs tab = fold apply_one rs' tab"
proof
  fix k
  have "separate_by target rs'" and same: "set rs = set rs'"
    using assms separate_by_mset by (blast, metis set_mset_mset)
  show "fold apply_one rs tab k = fold apply_one rs' tab k"
  proof (cases "\<exists>r\<in>set rs. target r = Some k")
    case True
    then obtain r where "r \<in> set rs" "target r = Some k" by blast
    with fold_at assms(1) \<open>separate_by target rs'\<close> same show ?thesis by metis
  next
    case False
    with fold_other[of rs k] fold_other[of rs' k] same show ?thesis by simp
  qed
qed

end

section \<open>Entities stamped one after the other\<close>

text \<open>What a write makes of a Model, and on which stored item it may do so.\<close>

definition saved :: "model \<Rightarrow> model \<Rightarrow> bool" where
  "saved m m' \<longleftrightarrow>
     (if m_CreatedAt m = 0 then m_Version m' = 1 \<and> (m_ID m \<noteq> 0 \<longrightarrow> m_ID m' = m_ID m)
      else m_Version m' = m_Version m + 1 \<and> m_ID m' = m_ID m)"

definition put_condition :: "model \<Rightarrow> condition" where
  "put_condition m = (if m_CreatedAt m = 0 then AttrNotExists ''PK'' else version_equals (m_Version m))"

text \<open>
  \<open>item_of L num t a m h k av\<close>: \<open>av\<close> is the item, under the key \<open>k\<close>, of the entity that was
  handed over with Model \<open>m\<close> and is in the heap \<open>h\<close> afterwards.
\<close>

definition item_of ::
    "'w lib \<Rightarrow> (go_int \<Rightarrow> attr_val) \<Rightarrow> gtype \<Rightarrow> addr \<Rightarrow> model \<Rightarrow> heap \<Rightarrow> table_key \<Rightarrow> item \<Rightarrow> bool" where
  "item_of L num t a m h k av \<longleftrightarrow> Keys L h (ptr t a) = Ok k \<and> primary_key av = Some k \<and>
     (\<exists>m'. entity h t a m' \<and> saved m m' \<and>
       (version_law L t num \<longrightarrow> fmlookup av ''Version'' = Some (num (m_Version m'))))"

lemma Keys_local:
  assumes "h a = h' a" and "struct_fields t \<noteq> None"
  shows "Keys L h (ptr t a) = Keys L h' (ptr t a)"
proof -
  have "structValueOf h (ptr t a) = structValueOf h' (ptr t a)"
    using assms by (cases t) (simp_all add: structValueOf_def)
  then show ?thesis by (simp add: Keys_def PK_def SK_def)
qed

lemma item_of_local:
  assumes "item_of L num t a m h k av" and "h a = h' a"
  shows "item_of L num t a m h' k av"
proof -
  obtain m' where "entity h t a m'" using assms(1) by (auto simp: item_of_def)
  then have "struct_fields t \<noteq> None" using entity_path model_path_struct by blast
  from Keys_local[of h a h', OF assms(2) this, of L] assms show ?thesis by (auto simp: item_of_def entity_def)
qed

lemma stamped_item_of:
  assumes "entity (mem s) t a m" and "db_gsi1PKAttr d \<notin> {''PK'', ''SK'', ''Version''}"
    and "stampAndMarshal L d ctx (ptr t a) s = (Ok (av, cond), s1)"
  shows "cond = put_condition m \<and> (\<exists>k. item_of L num t a m (mem s1) k av)"
proof -
  obtain m' w where mem: "snd (stampAndMarshal L d ctx (ptr t a) s) = s\<lparr>mem := stamped (mem s) t a m', world := w\<rparr>"
    and cases: "if m_CreatedAt m = 0
     then \<exists>i. m' = stamped_create (fst (db_clock d (world s))) (db_actor d ctx) i (type_name t) \<and>
       i = (if m_ID m = 0 then fst (lib_uuid_new L (snd (db_clock d (world s)))) else m_ID m)
     else m' = stamped_update (fst (db_clock d (world s))) (db_actor d ctx) m"
    using stampAndMarshal_entity[OF assms(1), of L d ctx] by (metis snd_conv)
  have "mem s1 = stamped (mem s) t a m'" using mem assms(3) by simp
  with entity_stamped[OF assms(1)] have e': "entity (mem s1) t a m'" by simp
  have "saved m m'" unfolding saved_def
    using cases by (cases "m_CreatedAt m = 0") (auto simp: stamped_create_def stamped_update_def)
  note m' = e' this
  obtain base where base: "marshalItem L (mem s1) (ptr t a) = Ok base"
      "\<forall>k. k \<notin> {''PK'', ''SK'', db_gsi1PKAttr d} \<longrightarrow> fmlookup av k = fmlookup base k"
    using marshaled_base[OF assms(1,3)] by blast
  have "fmlookup av ''Version'' = Some (num (m_Version m'))" if law: "version_law L t num"
    using law[unfolded version_law_def, rule_format, OF m'(1) base(1)] base(2)[rule_format, of "''Version''"] assms(2) by auto
  with stamped_key[OF assms(1) _ assms(3)] assms(2) m' show ?thesis
    by (auto simp: item_of_def put_condition_def)
qed

text \<open>A loop whose steps each touch the object of their own operation only.\<close>

primrec each :: "('o \<Rightarrow> ('s, 'r) act) \<Rightarrow> 'o list \<Rightarrow> ('s, 'r list) act" where
  "each f [] s = (Ok [], s)"
| "each f (x # xs) s = continue (f x s) (\<lambda>r s. continue (each f xs s) (\<lambda>rs s. (Ok (r # rs), s)))"

locale object_steps =
  fixes step_one :: "'o \<Rightarrow> ('w st, 'r) act"
    and object_of :: "'o \<Rightarrow> addr option"
    and made :: "'o \<Rightarrow> heap \<Rightarrow> heap \<Rightarrow> 'r \<Rightarrow> bool"
  assumes step_frame: "object_of x \<noteq> Some a \<Longrightarrow> mem (snd (step_one x s)) a = mem s a"
    and step_made: "step_one x s = (Ok r, s') \<Longrightarrow> made x (mem s) (mem s') r"
    and made_local: "made x h h1 r \<Longrightarrow> (\<And>a. object_of x = Some a \<Longrightarrow> h a = h' a \<and> h1 a = h1' a) \<Longrightarrow> made x h' h1' r"
begin

lemma each_frame:
  "\<forall>x\<in>set xs. object_of x \<noteq> Some a \<Longrightarrow> mem (snd (each step_one xs s)) a = mem s a"
proof (induction xs arbitrary: s)
  case (Cons x xs)
  obtain r s1 where e: "step_one x s = (r, s1)" by fastforce
  obtain r' s2 where es: "each step_one xs s1 = (r', s2)" by fastforce
  show ?case using Cons.IH[of s1] Cons.prems step_frame[of x a s] e es by (cases r; cases r') auto
qed simp

lemma each_made:
  assumes "distinct (List.map_filter object_of xs)"
  shows "each step_one xs s = (Ok rs, s') \<Longrightarrow> list_all2 (\<lambda>x r. made x (mem s) (mem s') r) xs rs"
  using assms
proof (induction xs arbitrary: s rs)
  case (Cons x xs)
  obtain r s1 rs' where e: "step_one x s = (Ok r, s1)" "each step_one xs s1 = (Ok rs', s')" "rs = r # rs'"
    using Cons.prems(1) by (auto simp: continue_Ok)
  have other: "object_of y \<noteq> Some a" if "object_of x = Some a" "y \<in> set xs" for a y
    using Cons.prems(2) that by (force simp: map_filter_simps List.map_filter_def)
  have "made x (mem s) (mem s') r"
    using each_frame[of xs _ s1] e(2) other by (intro made_local[OF step_made[OF e(1)]]) fastforce
  moreover have "list_all2 (\<lambda>x r. made x (mem s1) (mem s') r) xs rs'"
    using Cons.IH[OF e(2)] Cons.prems(2) by (simp add: map_filter_simps split: option.splits)
  then have "list_all2 (\<lambda>x r. made x (mem s) (mem s') r) xs rs'"
  proof (rule list.rel_mono_strong)
    fix y r' assume "y \<in> set xs" "made y (mem s1) (mem s') r'"
    then show "made y (mem s) (mem s') r'"
      using step_frame[of x _ s] e(1) other by (elim made_local) fastforce
  qed
  ultimately show ?case using e(3) by simp
qed simp

end

end
