(* ===== verification/Paging.thy ===== *)
theory Paging
  imports Compress Sample_DB
begin

text \<open>
  The pagination that \<open>QueryBuilder.All\<close>, \<open>ScanBuilder.scanSegment\<close> and
  \<open>StatementBuilder.All\<close> share: call, unmarshal the page's items, stop or go on with the next
  request. The three loops are modelled where the code has them; here is what they have in common,
  as a locale that each of them interprets, and the pages of a finished run as an inductive relation.
\<close>

section \<open>Unmarshaling a page\<close>

text \<open>A loop that appends the results of a fallible function, and stops at the first failure.\<close>

fun traverse :: "('a \<Rightarrow> 'b outcome) \<Rightarrow> 'a list \<Rightarrow> 'b list outcome" where
  "traverse f [] = Ok []"
| "traverse f (x # xs) = and_then (f x) (\<lambda>y. map_ok ((#) y) (traverse f xs))"

lemma traverse_append:
  "traverse f (xs @ ys) = and_then (traverse f xs) (\<lambda>as. map_ok ((@) as) (traverse f ys))"
proof (induction xs)
  case Nil
  show ?case by (cases "traverse f ys") auto
next
  case (Cons x xs)
  show ?case
  proof (cases "f x")
    case (Ok y)
    show ?thesis using Ok Cons.IH by (cases "traverse f xs"; cases "traverse f ys") auto
  qed simp_all
qed

lemma traverse_Ok: "traverse f xs = Ok ys \<longleftrightarrow> list_all2 (\<lambda>x y. f x = Ok y) xs ys"
  by (induction xs arbitrary: ys) (auto simp: list_all2_Cons1)

lemma traverse_length: "traverse f xs = Ok ys \<Longrightarrow> length ys = length xs"
  by (auto simp: traverse_Ok dest: list_all2_lengthD)

text \<open>
  The loop \<open>for _, av := range out.Items\<close> of the typed reads; the error names the type.
\<close>

definition unmarshal_item :: "'w lib \<Rightarrow> gtype \<Rightarrow> item \<Rightarrow> gval outcome" where
  "unmarshal_item L t av =
     wrap_fail (''godynamo: unmarshal '' @ type_name t) (unmarshal_fresh L t av)"

definition unmarshal_items :: "'w lib \<Rightarrow> gtype \<Rightarrow> item list \<Rightarrow> gval list outcome" where
  "unmarshal_items L t = traverse (unmarshal_item L t)"

section \<open>Chains of pages\<close>

text \<open>
  The pages a run fetches: from request \<open>i\<close> in state \<open>s\<close>, the calls reply with the pages
  \<open>ps\<close> and the next request is \<open>j\<close>.
\<close>

inductive fetches ::
    "('i \<Rightarrow> ('s, 'p) act) \<Rightarrow> ('i \<Rightarrow> 'p \<Rightarrow> 'i option) \<Rightarrow> 'i \<Rightarrow> 's \<Rightarrow> 'p list \<Rightarrow> 'i \<Rightarrow> 's \<Rightarrow> bool"
  for call next_in where
  none: "fetches call next_in i s [] i s"
| more: "call i s = (Ok p, s1) \<Longrightarrow> next_in i p = Some j \<Longrightarrow> fetches call next_in j s1 ps k s' \<Longrightarrow>
         fetches call next_in i s (p # ps) k s'"

text \<open>A complete run ends with a page that names no next one.\<close>

inductive all_pages ::
    "('i \<Rightarrow> ('s, 'p) act) \<Rightarrow> ('i \<Rightarrow> 'p \<Rightarrow> 'i option) \<Rightarrow> 'i \<Rightarrow> 's \<Rightarrow> 'p list \<Rightarrow> 's \<Rightarrow> bool"
  for call next_in where
  last: "call i s = (Ok p, s') \<Longrightarrow> next_in i p = None \<Longrightarrow> all_pages call next_in i s [p] s'"
| more: "call i s = (Ok p, s1) \<Longrightarrow> next_in i p = Some j \<Longrightarrow> all_pages call next_in j s1 ps s' \<Longrightarrow>
         all_pages call next_in i s (p # ps) s'"

inductive_cases all_pages_elim: "all_pages call next_in i s ps s'"

lemma all_pages_unique:
  "all_pages call next_in i s ps s' \<Longrightarrow> all_pages call next_in i s qs s'' \<Longrightarrow> ps = qs \<and> s' = s''"
proof (induction arbitrary: qs s'' rule: all_pages.induct)
  case (last i s p s')
  from last.prems show ?case by (rule all_pages_elim) (use last.hyps in simp_all)
next
  case (more i s p s1 j ps s')
  from more.prems obtain qs' where "qs = p # qs'" and "all_pages call next_in j s1 qs' s''"
    by (rule all_pages_elim) (use more.hyps in simp_all)
  with more.IH show ?case by blast
qed

section \<open>The loop\<close>

locale paginator =
  fixes call :: "'i \<Rightarrow> ('s, 'p) act"
    and next_in :: "'i \<Rightarrow> 'p \<Rightarrow> 'i option"
    and items_of :: "'p \<Rightarrow> 'x list"
    and dec :: "'x \<Rightarrow> 'a outcome"
    and loop :: "'i \<Rightarrow> 'a list \<Rightarrow> 's \<Rightarrow> ('a list outcome \<times> 's) option"
  assumes loop_eq: "loop i acc s =
      (case call i s of
         (Ok p, s1) \<Rightarrow>
           (case traverse dec (items_of p) of
              Ok xs \<Rightarrow>
                (case next_in i p of
                   None \<Rightarrow> Some (Ok (acc @ xs), s1)
                 | Some j \<Rightarrow> loop j (acc @ xs) s1)
            | Fail e \<Rightarrow> Some (Fail e, s1)
            | Panic m \<Rightarrow> Some (Panic m, s1))
       | (Fail e, s1) \<Rightarrow> Some (Fail e, s1)
       | (Panic m, s1) \<Rightarrow> Some (Panic m, s1))"
    and loop_least: "loop i acc s = Some r \<Longrightarrow>
      (\<And>i acc s p s1 xs. call i s = (Ok p, s1) \<Longrightarrow> traverse dec (items_of p) = Ok xs \<Longrightarrow>
         next_in i p = None \<Longrightarrow> P i acc s (Ok (acc @ xs), s1)) \<Longrightarrow>
      (\<And>i acc s p s1 xs j r. call i s = (Ok p, s1) \<Longrightarrow> traverse dec (items_of p) = Ok xs \<Longrightarrow>
         next_in i p = Some j \<Longrightarrow> P j (acc @ xs) s1 r \<Longrightarrow> P i acc s r) \<Longrightarrow>
      (\<And>i acc s p s1 r. call i s = (Ok p, s1) \<Longrightarrow> traverse dec (items_of p) = r \<Longrightarrow>
         (\<And>xs. r \<noteq> Ok xs) \<Longrightarrow> P i acc s (r, s1)) \<Longrightarrow>
      (\<And>i acc s e s1. call i s = (Fail e, s1) \<Longrightarrow> P i acc s (Fail e, s1)) \<Longrightarrow>
      (\<And>i acc s m s1. call i s = (Panic m, s1) \<Longrightarrow> P i acc s (Panic m, s1)) \<Longrightarrow>
      P i acc s r"
begin

text \<open>The equation, one lemma per branch.\<close>

lemma loop_eq_last:
  "call i s = (Ok p, s1) \<Longrightarrow> traverse dec (items_of p) = Ok xs \<Longrightarrow> next_in i p = None \<Longrightarrow>
   loop i acc s = Some (Ok (acc @ xs), s1)"
  by (subst loop_eq) simp

lemma loop_eq_more:
  "call i s = (Ok p, s1) \<Longrightarrow> traverse dec (items_of p) = Ok xs \<Longrightarrow> next_in i p = Some j \<Longrightarrow>
   loop i acc s = loop j (acc @ xs) s1"
  by (subst loop_eq) simp

lemma loop_eq_bad:
  "call i s = (Ok p, s1) \<Longrightarrow> traverse dec (items_of p) = r \<Longrightarrow> (\<And>xs. r \<noteq> Ok xs) \<Longrightarrow>
   loop i acc s = Some (r, s1)"
  by (subst loop_eq) (simp split: outcome.split)

lemma loop_eq_fail: "call i s = (Fail e, s1) \<Longrightarrow> loop i acc s = Some (Fail e, s1)"
  by (subst loop_eq) simp

lemma loop_eq_panic: "call i s = (Panic m, s1) \<Longrightarrow> loop i acc s = Some (Panic m, s1)"
  by (subst loop_eq) simp

text \<open>A complete chain whose items all unmarshal yields the items in order.\<close>

lemma loop_all:
  "all_pages call next_in i s ps s' \<Longrightarrow> traverse dec (concat (map items_of ps)) = Ok xs \<Longrightarrow>
   loop i acc s = Some (Ok (acc @ xs), s')"
proof (induction arbitrary: acc xs rule: all_pages.induct)
  case (last i s p s')
  then show ?case by (subst loop_eq) simp
next
  case (more i s p s1 j ps s')
  then obtain as bs where "traverse dec (items_of p) = Ok as"
      and "traverse dec (concat (map items_of ps)) = Ok bs" and "xs = as @ bs"
    by (auto simp: traverse_append)
  with more show ?case by (subst loop_eq) simp
qed

text \<open>The loop ends whenever the chain of pages does.\<close>

lemma loop_terminates:
  "all_pages call next_in i s ps s' \<Longrightarrow> \<exists>r. loop i acc s = Some r"
proof (induction arbitrary: acc rule: all_pages.induct)
  case (last i s p s')
  then show ?case by (subst loop_eq) (simp split: outcome.split)
next
  case (more i s p s1 j ps s')
  from more.hyps more.IH show ?case by (subst loop_eq) (simp split: outcome.split)
qed

text \<open>Conversely, a result is the items of a complete chain.\<close>

lemma loop_sound:
  assumes "loop i acc s = Some (Ok ys, s')"
  shows "\<exists>ps xs. all_pages call next_in i s ps s' \<and>
    traverse dec (concat (map items_of ps)) = Ok xs \<and> ys = acc @ xs"
proof -
  have "case (Ok ys, s') of (Ok ys, s') \<Rightarrow> \<exists>ps xs. all_pages call next_in i s ps s' \<and>
    traverse dec (concat (map items_of ps)) = Ok xs \<and> ys = acc @ xs | _ \<Rightarrow> True"
    using assms
  proof (rule loop_least[where P = "\<lambda>i acc s r. case r of (Ok ys, s') \<Rightarrow>
      \<exists>ps xs. all_pages call next_in i s ps s' \<and>
        traverse dec (concat (map items_of ps)) = Ok xs \<and> ys = acc @ xs | _ \<Rightarrow> True"], goal_cases)
    case (1 i acc s p s1 xs)
    then show ?case by (auto intro!: exI[of _ "[p]"] all_pages.last)
  next
    case (2 i acc s p s1 xs j r)
    show ?case
    proof (cases r)
      case (Pair o1 s2)
      show ?thesis
      proof (cases o1)
        case (Ok zs)
        with 2(4) Pair obtain ps as where "all_pages call next_in j s1 ps s2"
            and "traverse dec (concat (map items_of ps)) = Ok as" and "zs = (acc @ xs) @ as"
          by auto
        with 2(1-3) Pair Ok show ?thesis
          by (auto intro!: exI[of _ "p # ps"] exI[of _ "xs @ as"] all_pages.more simp: traverse_append)
      qed (use Pair in simp_all)
    qed
  next
    case (3 i acc s p s1 r)
    then show ?case by (cases r) auto
  qed simp_all
  then show ?thesis by simp
qed

text \<open>A failing call ends the run with its error, and the items read so far are dropped.\<close>

lemma loop_fails:
  "fetches call next_in i s ps j s1 \<Longrightarrow> traverse dec (concat (map items_of ps)) = Ok xs \<Longrightarrow>
   call j s1 = (Fail e, s') \<Longrightarrow> loop i acc s = Some (Fail e, s')"
proof (induction arbitrary: acc xs rule: fetches.induct)
  case (none i s)
  then show ?case by (subst loop_eq) simp
next
  case (more i s p s1 j ps k s'')
  then obtain as bs where "traverse dec (items_of p) = Ok as"
      and "traverse dec (concat (map items_of ps)) = Ok bs"
    by (auto simp: traverse_append)
  with more show ?case by (subst loop_eq) simp
qed

text \<open>
  When the replies do not depend on the state, neither does the result.
\<close>

lemma loop_state_indep:
  assumes reply: "\<And>i s s'. fst (call i s) = fst (call i s')"
    and loop: "loop i acc s = Some r"
  shows "\<exists>s2. loop i acc s' = Some (fst r, s2)"
proof -
  have "\<forall>s'. \<exists>s2. loop i acc s' = Some (fst r, s2)"
    using loop
  proof (rule loop_least[where P = "\<lambda>i acc s r. \<forall>s'. \<exists>s2. loop i acc s' = Some (fst r, s2)"], goal_cases)
    case (1 i acc s p s1 xs)
    have "\<exists>s2. call i s' = (Ok p, s2)" for s' using reply[of i s' s] 1 by (metis fst_conv surj_pair)
    with 1 show ?case by (metis (no_types, lifting) loop_eq_last fst_conv)
  next
    case (2 i acc s p s1 xs j r)
    have "\<exists>s2. call i s' = (Ok p, s2)" for s' using reply[of i s' s] 2 by (metis fst_conv surj_pair)
    with 2 show ?case by (metis (no_types, lifting) loop_eq_more)
  next
    case (3 i acc s p s1 r)
    have "\<exists>s2. call i s' = (Ok p, s2)" for s' using reply[of i s' s] 3 by (metis fst_conv surj_pair)
    with 3 show ?case by (metis (no_types, lifting) loop_eq_bad fst_conv)
  next
    case (4 i acc s e s1)
    have "\<exists>s2. call i s' = (Fail e, s2)" for s' using reply[of i s' s] 4 by (metis fst_conv surj_pair)
    then show ?case by (metis (no_types, lifting) loop_eq_fail fst_conv)
  next
    case (5 i acc s m s1)
    have "\<exists>s2. call i s' = (Panic m, s2)" for s' using reply[of i s' s] 5 by (metis fst_conv surj_pair)
    then show ?case by (metis (no_types, lifting) loop_eq_panic fst_conv)
  qed
  then show ?thesis by blast
qed

lemma loop_result:
  "all_pages call next_in i s ps s' \<Longrightarrow>
   fst (the (loop i [] s)) = Ok xs \<longleftrightarrow> traverse dec (concat (map items_of ps)) = Ok xs"
proof
  assume c: "all_pages call next_in i s ps s'" and r: "fst (the (loop i [] s)) = Ok xs"
  obtain r' s'' where "loop i [] s = Some (r', s'')" using loop_terminates[OF c] by fastforce
  with r have "loop i [] s = Some (Ok xs, s'')" by simp
  from loop_sound[OF this] c show "traverse dec (concat (map items_of ps)) = Ok xs"
    by (auto dest: all_pages_unique)
next
  assume "all_pages call next_in i s ps s'" and "traverse dec (concat (map items_of ps)) = Ok xs"
  then show "fst (the (loop i [] s)) = Ok xs" by (simp add: loop_all)
qed

end

section \<open>Concrete rows\<close>

text \<open>The witnesses page through rows with one attribute.\<close>

definition sample_row :: "string \<Rightarrow> item" where
  "sample_row x = fmupd ''Status'' (AVS x) fmempty"

definition row_value :: "string \<Rightarrow> gval" where
  "row_value x = VStruct [val_of_model zero_model, VStr [], VStr x, VStr []]"

lemma unmarshal_row [simp]: "unmarshal_item sample_lib order_type (sample_row x) = Ok (row_value x)"
proof -
  have "lib_unmarshal_map sample_lib (sample_row x) order_type (zero_value order_type) = (row_value x, None)"
    by (simp add: sample_lib_def sample_row_def row_value_def type_leaves_def order_type_def
        model_type_def val_of_model_def zero_model_def)
  then show ?thesis
    by (simp add: unmarshal_item_def unmarshal_fresh_def unmarshal_value_def parse_order
        unmarshal_map_into_def)
qed

definition two_pages :: sworld where
  "two_pages = empty_world\<lparr>sw_pages := [[sample_row ''open'', sample_row ''paid''], [sample_row ''sent'']]\<rparr>"

lemma page_at_two_pages:
  "page_at fmempty (two_pages\<lparr>sw_calls := n\<rparr>) =
     \<lparr>pg_items = [sample_row ''open'', sample_row ''paid''], pg_last = sample_key\<rparr>"
  "page_at sample_key (two_pages\<lparr>sw_calls := n\<rparr>) = \<lparr>pg_items = [sample_row ''sent''], pg_last = fmempty\<rparr>"
  by (simp_all add: page_at_def two_pages_def sample_key_def parse_nat_def nat_string.simps Let_def)

end
