(* ===== verification/Filters.thy ===== *)
theory Filters
  imports Tags Aws_Interface Go_Errors
begin

text \<open>
  The filter conditions of \<open>query.go\<close> (\<open>filterOp\<close>, \<open>filterCondition\<close>,
  \<open>buildCondition\<close>, \<open>filterExpression\<close>), which the query and the scan builder share,
  and what a filter expression means. The interface of a builder that queues filters is a locale;
  both builders interpret it.
\<close>

datatype filter_op =
    filterEqual | filterNotEqual | filterGreaterThan | filterGreaterOrEqual | filterLessThan
  | filterLessOrEqual | filterBeginsWith | filterContains | filterExists | filterNotExists

record filter_condition =
  fc_op :: filter_op
  fc_field :: string
  fc_value :: go_any

text \<open>The checked assertion \<open>f.value.(string)\<close>, with the zero string when it fails.\<close>

fun string_or_empty :: "go_any \<Rightarrow> string" where
  "string_or_empty (Some (TString, VStr s)) = s"
| "string_or_empty x = []"

definition buildCondition :: "filter_condition \<Rightarrow> condition" where
  "buildCondition f =
     (let name = fc_field f in
      case fc_op f of
        filterEqual \<Rightarrow> Compare CmpEq name (fc_value f)
      | filterNotEqual \<Rightarrow> Compare CmpNe name (fc_value f)
      | filterGreaterThan \<Rightarrow> Compare CmpGt name (fc_value f)
      | filterGreaterOrEqual \<Rightarrow> Compare CmpGe name (fc_value f)
      | filterLessThan \<Rightarrow> Compare CmpLt name (fc_value f)
      | filterLessOrEqual \<Rightarrow> Compare CmpLe name (fc_value f)
      | filterBeginsWith \<Rightarrow> CondBeginsWith name (string_or_empty (fc_value f))
      | filterContains \<Rightarrow> CondContains name (fc_value f)
      | filterExists \<Rightarrow> AttrExists name
      | filterNotExists \<Rightarrow> AttrNotExists name)"

text \<open>\<open>filterExpression\<close> indexes \<open>filters[0]\<close>: an empty list panics.\<close>

fun filterExpression :: "filter_condition list \<Rightarrow> condition outcome" where
  "filterExpression [] = Panic ''runtime error: index out of range [0] with length 0''"
| "filterExpression (f # fs) =
     Ok (fold (\<lambda>f cond. CondAnd cond (buildCondition f)) fs (buildCondition f))"

section \<open>The meaning of a filter expression\<close>

text \<open>
  A condition on an item, under any reading \<open>ev\<close> of the atomic conditions.
\<close>

fun cond_holds :: "(condition \<Rightarrow> bool) \<Rightarrow> condition \<Rightarrow> bool" where
  "cond_holds ev (CondAnd a b) \<longleftrightarrow> cond_holds ev a \<and> cond_holds ev b"
| "cond_holds ev c \<longleftrightarrow> ev c"

lemma cond_holds_build [simp]: "cond_holds ev (buildCondition f) \<longleftrightarrow> ev (buildCondition f)"
  by (simp add: buildCondition_def Let_def split: filter_op.split)

lemma cond_holds_fold:
  "cond_holds ev (fold (\<lambda>f cond. CondAnd cond (buildCondition f)) fs c) \<longleftrightarrow>
   cond_holds ev c \<and> (\<forall>f\<in>set fs. ev (buildCondition f))"
  by (induction fs arbitrary: c) auto

lemma filterExpression_Ok: "fs \<noteq> [] \<Longrightarrow> \<exists>c. filterExpression fs = Ok c"
  by (cases fs) auto

lemma filterExpression_holds:
  "filterExpression fs = Ok c \<Longrightarrow> cond_holds ev c \<longleftrightarrow> (\<forall>f\<in>set fs. ev (buildCondition f))"
  by (cases fs) (auto simp: cond_holds_fold)

section \<open>Builders that queue filters\<close>

definition resolved_filter :: "gtype \<Rightarrow> filter_op \<Rightarrow> string \<Rightarrow> go_any \<Rightarrow> filter_condition" where
  "resolved_filter t op field v =
     \<lparr>fc_op = op, fc_field = resolve_attr_name t field, fc_value = v\<rparr>"

locale filter_builder =
  fixes queued :: "'b \<Rightarrow> filter_condition list"
    and item_type :: "'b \<Rightarrow> gtype"
    and add_filter :: "'b \<Rightarrow> filter_op \<Rightarrow> string \<Rightarrow> go_any \<Rightarrow> 'b"
  assumes queued_add: "queued (add_filter b op field v) =
      queued b @ [resolved_filter (item_type b) op field v]"
    and type_add: "item_type (add_filter b op field v) = item_type b"
begin

text \<open>Chained filter calls, in order.\<close>

definition add_filters :: "(filter_op \<times> string \<times> go_any) list \<Rightarrow> 'b \<Rightarrow> 'b" where
  "add_filters cs b = fold (\<lambda>(op, field, v) b. add_filter b op field v) cs b"

lemma add_filters_queued:
  "queued (add_filters cs b) =
     queued b @ map (\<lambda>(op, field, v). resolved_filter (item_type b) op field v) cs \<and>
   item_type (add_filters cs b) = item_type b"
  by (induction cs arbitrary: b) (auto simp: add_filters_def queued_add type_add)

text \<open>An added filter narrows the expression by exactly its own condition.\<close>

lemma add_filter_conjunct:
  assumes "filterExpression (queued (add_filter b op field v)) = Ok c"
  shows "cond_holds ev c \<longleftrightarrow>
    (\<forall>f\<in>set (queued b). ev (buildCondition f)) \<and>
    ev (buildCondition (resolved_filter (item_type b) op field v))"
  using filterExpression_holds[OF assms, of ev] by (auto simp: queued_add)

lemma add_filters_meaning:
  assumes "queued b = []" and "cs \<noteq> []"
  shows "\<exists>c. filterExpression (queued (add_filters cs b)) = Ok c \<and>
    (\<forall>ev. cond_holds ev c \<longleftrightarrow>
      list_all (\<lambda>(op, field, v). ev (buildCondition (resolved_filter (item_type b) op field v))) cs)"
proof -
  have q: "queued (add_filters cs b) =
      map (\<lambda>(op, field, v). resolved_filter (item_type b) op field v) cs"
    using add_filters_queued[of cs b] assms(1) by simp
  then obtain c where "filterExpression (queued (add_filters cs b)) = Ok c"
    using filterExpression_Ok assms(2) by fastforce
  with filterExpression_holds[OF this] show ?thesis by (auto simp: q list_all_iff split: prod.splits)
qed

end

end
