(* ===== verification/Cursor.thy ===== *)
theory Cursor
  imports Aws_Interface Sample_Lib
begin

text \<open>
  \<open>encodeCursor\<close> and \<open>decodeCursor\<close> of \<open>query.go\<close>. \<open>base64.RawURLEncoding\<close> (URL
  alphabet, no padding, not strict) is modelled; \<open>attributevalue\<close> and the JSON of a
  \<open>map[string]any\<close> are parameters.
\<close>

section \<open>Base64\<close>

definition b64_alphabet :: string where
  "b64_alphabet = ''ABCDEFGHIJKLMNOPQRSTUVWXYZabcdefghijklmnopqrstuvwxyz0123456789-_''"

definition b64_char :: "nat \<Rightarrow> char" where
  "b64_char n = b64_alphabet ! n"

definition b64_value :: "char \<Rightarrow> nat option" where
  "b64_value c =
     (let n = of_char c in
      if 65 \<le> n \<and> n \<le> 90 then Some (n - 65)
      else if 97 \<le> n \<and> n \<le> 122 then Some (n - 71)
      else if 48 \<le> n \<and> n \<le> 57 then Some (n + 4)
      else if c = CHR ''-'' then Some 62
      else if c = CHR ''_'' then Some 63
      else None)"

text \<open>\<open>EncodeToString\<close>: three bytes to four characters, a rest of one or two to two or three.\<close>

fun b64_sextets :: "nat list \<Rightarrow> nat list" where
  "b64_sextets [] = []"
| "b64_sextets [a] = [a div 4, a mod 4 * 16]"
| "b64_sextets [a, b] = [a div 4, a mod 4 * 16 + b div 16, b mod 16 * 4]"
| "b64_sextets (a # b # c # bs) =
     a div 4 # (a mod 4 * 16 + b div 16) # (b mod 16 * 4 + c div 64) # c mod 64 # b64_sextets bs"

definition b64_encode :: "byte list \<Rightarrow> string" where
  "b64_encode bs = map b64_char (b64_sextets (map unat bs))"

text \<open>
  \<open>DecodeString\<close>: line ends are skipped, any other character outside the alphabet is an error,
  and so is a single character in the last group; excess bits of the last group are ignored.
\<close>

fun b64_octets :: "nat list \<Rightarrow> nat list option" where
  "b64_octets [] = Some []"
| "b64_octets [x] = None"
| "b64_octets [x, y] = Some [x * 4 + y div 16]"
| "b64_octets [x, y, z] = Some [x * 4 + y div 16, y mod 16 * 16 + z div 4]"
| "b64_octets (x # y # z # w # cs) =
     map_option (\<lambda>bs. (x * 4 + y div 16) # (y mod 16 * 16 + z div 4) # (z mod 4 * 64 + w) # bs)
       (b64_octets cs)"

fun b64_values :: "string \<Rightarrow> nat list option" where
  "b64_values [] = Some []"
| "b64_values (c # cs) =
     (if c = CHR 0x0A \<or> c = CHR 0x0D then b64_values cs
      else Option.bind (b64_value c) (\<lambda>v. map_option ((#) v) (b64_values cs)))"

definition b64_decode :: "string \<Rightarrow> byte list option" where
  "b64_decode s = map_option (map word_of_nat) (Option.bind (b64_values s) b64_octets)"

lemma b64_alphabet_values: "map b64_value b64_alphabet = map Some [0..<64]"
  unfolding b64_alphabet_def by (simp add: b64_value_def upt_rec)

lemma b64_alphabet_plain: "CHR 0x0A \<notin> set b64_alphabet" "CHR 0x0D \<notin> set b64_alphabet"
  unfolding b64_alphabet_def by simp_all

lemma b64_char_value:
  assumes "n < 64"
  shows "b64_value (b64_char n) = Some n \<and> b64_char n \<noteq> CHR 0x0A \<and> b64_char n \<noteq> CHR 0x0D"
proof -
  have len: "length b64_alphabet = 64"
    using arg_cong[OF b64_alphabet_values, of length] by simp
  have "map b64_value b64_alphabet ! n = Some n" using assms by (simp add: b64_alphabet_values)
  moreover have "b64_char n \<in> set b64_alphabet" using assms len by (simp add: b64_char_def)
  then have "b64_char n \<noteq> CHR 0x0A" "b64_char n \<noteq> CHR 0x0D" using b64_alphabet_plain by metis+
  ultimately show ?thesis using assms len by (simp add: b64_char_def)
qed

lemma b64_values_chars: "\<forall>n\<in>set ns. n < 64 \<Longrightarrow> b64_values (map b64_char ns) = Some ns"
  by (induction ns) (auto simp: b64_char_value)

lemma sextet_bounds:
  fixes a b c :: nat
  shows "a < 256 \<Longrightarrow> a div 4 < 64" and "a mod 4 * 16 < 64" and "b mod 16 * 4 < 64"
    and "b < 256 \<Longrightarrow> a mod 4 * 16 + b div 16 < 64"
    and "c < 256 \<Longrightarrow> b mod 16 * 4 + c div 64 < 64"
proof -
  have m: "a mod 4 < 4" "b mod 16 < 16" by simp_all
  show "a < 256 \<Longrightarrow> a div 4 < 64" by auto
  show "a mod 4 * 16 < 64" "b mod 16 * 4 < 64" using m by linarith+
  show "a mod 4 * 16 + b div 16 < 64" if "b < 256"
  proof -
    have "b div 16 < 16" using that by auto
    with m show ?thesis by linarith
  qed
  show "b mod 16 * 4 + c div 64 < 64" if "c < 256"
  proof -
    have "c div 64 < 4" using that by auto
    with m show ?thesis by linarith
  qed
qed

lemma b64_sextets_bound: "\<forall>b\<in>set bs. b < 256 \<Longrightarrow> \<forall>n\<in>set (b64_sextets bs). n < 64"
  by (induction bs rule: b64_sextets.induct) (simp_all add: sextet_bounds)

lemma octet_parts:
  fixes b c :: nat
  assumes "b < 256"
  shows "b div 16 div 16 = 0" and "b div 64 div 4 = 0"
    and "b div 16 mod 16 * 16 + b mod 16 = b" and "b div 64 mod 4 * 64 + b mod 64 = b"
proof -
  have "b div 16 < 16" "b div 64 < 4" using assms by auto
  then show "b div 16 div 16 = 0" "b div 64 div 4 = 0"
      "b div 16 mod 16 * 16 + b mod 16 = b" "b div 64 mod 4 * 64 + b mod 64 = b"
    by simp_all
qed

lemma b64_octets_sextets: "\<forall>b\<in>set bs. b < 256 \<Longrightarrow> b64_octets (b64_sextets bs) = Some bs"
  by (induction bs rule: b64_sextets.induct) (simp_all add: octet_parts)

lemma unat_lt2p_byte: "unat (b :: byte) < 256"
  using unsigned_less[of b, where ?'a = nat] by simp

lemma b64_round_trip: "b64_decode (b64_encode bs) = Some bs"
proof -
  have bytes: "\<forall>n\<in>set (map unat bs). n < 256"
    using unat_lt2p_byte by auto
  have "b64_values (b64_encode bs) = Some (b64_sextets (map unat bs))"
    using b64_values_chars[OF b64_sextets_bound[OF bytes]] by (simp add: b64_encode_def)
  then show ?thesis
    using b64_octets_sextets[OF bytes] by (simp add: b64_decode_def comp_def)
qed

lemma b64_value_alphabet:
  assumes "b64_value x \<noteq> None"
  shows "x \<in> set b64_alphabet"
proof -
  let ?n = "of_char x :: nat"
  have "?n \<in> set ([65..<91] @ [97..<123] @ [48..<58] @ [45, 95])"
    using assms by (auto simp: b64_value_def Let_def simp del: upt_rec_numeral split: if_splits)
  then have "char_of ?n \<in> set (map char_of ([65..<91] @ [97..<123] @ [48..<58] @ [45, 95 :: nat]))"
    by (metis image_eqI set_map)
  also have "set (map char_of ([65..<91] @ [97..<123] @ [48..<58] @ [45, 95 :: nat])) \<subseteq> set b64_alphabet"
    by (simp add: b64_alphabet_def char_of_def bit_Suc_0_iff)
  finally show ?thesis by simp
qed

text \<open>Line ends are invisible to the decoder.\<close>

lemma b64_values_filter: "b64_values (filter (\<lambda>c. c \<noteq> CHR 0x0A \<and> c \<noteq> CHR 0x0D) s) = b64_values s"
  by (induction s) auto

lemma b64_values_foreign:
  "c \<in> set s \<Longrightarrow> c \<noteq> CHR 0x0A \<Longrightarrow> c \<noteq> CHR 0x0D \<Longrightarrow> b64_value c = None \<Longrightarrow> b64_values s = None"
  by (induction s) (auto simp: bind_eq_None_conv split: bind_splits)

lemma b64_encode_alphabet: "set (b64_encode bs) \<subseteq> set b64_alphabet"
proof -
  have "\<forall>n\<in>set (map unat bs). n < 256" using unat_lt2p_byte by auto
  from b64_sextets_bound[OF this] show ?thesis
    using arg_cong[OF b64_alphabet_values, of length] by (auto simp: b64_encode_def b64_char_def)
qed

section \<open>Cursors\<close>

definition encodeCursor :: "'w lib \<Rightarrow> item \<Rightarrow> string outcome" where
  "encodeCursor L key =
     and_then (wrap_fail ''godynamo: unmarshaling cursor key'' (of_result (lib_unmarshal_any L key))) (\<lambda>m.
     and_then (wrap_fail ''godynamo: marshaling cursor'' (of_result (lib_json_of_map L m))) (\<lambda>raw.
       Ok (b64_encode raw)))"

definition decodeCursor :: "'w lib \<Rightarrow> string \<Rightarrow> item outcome" where
  "decodeCursor L cursor =
     and_then
       (case b64_decode cursor of
          None \<Rightarrow> Fail (Wrapped ''godynamo: invalid cursor encoding'' (OtherErr ''illegal base64 data''))
        | Some raw \<Rightarrow> Ok raw) (\<lambda>raw.
     and_then (wrap_fail ''godynamo: invalid cursor payload'' (of_result (lib_map_of_json L raw))) (\<lambda>m.
       wrap_fail ''godynamo: marshaling cursor key'' (of_result (lib_marshal_any L m))))"

text \<open>
  What the libraries do with a key: the JSON of its map reads back as that map, and the map
  marshals to the key. (Keys of strings satisfy this; a Binary key does not, since JSON turns its
  bytes into a string.)
\<close>

definition cursor_law :: "'w lib \<Rightarrow> item \<Rightarrow> bool" where
  "cursor_law L key \<longleftrightarrow>
     (\<forall>m raw. lib_unmarshal_any L key = Inr m \<longrightarrow> lib_json_of_map L m = Inr raw \<longrightarrow>
        raw \<noteq> [] \<and> lib_map_of_json L raw = Inr m \<and> lib_marshal_any L m = Inr key)"

interpretation cur: codec "encodeCursor L" "decodeCursor L" "cursor_law L" for L :: "'w lib"
  by unfold_locales
    (auto simp: encodeCursor_def decodeCursor_def cursor_law_def b64_round_trip)

lemma encodeCursor_not_empty: "cursor_law L key \<Longrightarrow> encodeCursor L key = Ok c \<Longrightarrow> c \<noteq> []"
proof
  assume "cursor_law L key" and "encodeCursor L key = Ok c" and "c = []"
  then obtain raw where "raw \<noteq> []" and "b64_encode raw = []"
    by (auto simp: encodeCursor_def cursor_law_def)
  then show False using b64_round_trip[of raw] by (simp add: b64_decode_def)
qed

lemma sample_cursor:
  "encodeCursor sample_lib sample_key = Ok (b64_encode sample_key_json)"
  "cursor_law sample_lib sample_key"
  by (simp_all add: encodeCursor_def cursor_law_def sample_lib_def sample_key_def sample_key_json_def
      fmmap_fmupd)

lemma fmmap_any_str: "fmmap str_any m = fmmap str_any sample_key \<Longrightarrow> m = sample_key"
proof (rule fmap_ext)
  fix k
  assume eq: "fmmap str_any m = fmmap str_any sample_key"
  have "map_option str_any (fmlookup m k) = map_option str_any (fmlookup sample_key k)"
    using arg_cong[OF eq, of "\<lambda>m. fmlookup m k"] by simp
  then show "fmlookup m k = fmlookup sample_key k"
    by (cases "fmlookup m k"; cases "the (fmlookup m k)") (auto simp: sample_key_def split: if_splits)
qed

section \<open>Properties\<close>

text \<open>
  C40: A cursor leads back to the key it was made from, also when a transport broke it into
  lines; and it is URL-safe text without padding.
\<close>

theorem cursor_round_trip:
  assumes "cursor_law L key" and "encodeCursor L key = Ok c"
    and "filter (\<lambda>x. x \<noteq> CHR 0x0A \<and> x \<noteq> CHR 0x0D) c' = filter (\<lambda>x. x \<noteq> CHR 0x0A \<and> x \<noteq> CHR 0x0D) c"
  shows "decodeCursor L c' = Ok key \<and> c \<noteq> [] \<and> set c \<subseteq> set b64_alphabet"
proof -
  have "b64_decode c' = b64_decode c"
    using b64_values_filter[of c'] b64_values_filter[of c] assms(3) by (simp add: b64_decode_def)
  then have "decodeCursor L c' = decodeCursor L c" by (simp add: decodeCursor_def)
  moreover have "set c \<subseteq> set b64_alphabet"
    using assms(2) b64_encode_alphabet by (auto simp: encodeCursor_def)
  ultimately show ?thesis
    using cur.round_trip_via[OF assms(1,2)] encodeCursor_not_empty[OF assms(1,2)] by blast
qed

theorem cursor_round_trip_witness:
  "decodeCursor sample_lib (b64_encode sample_key_json @ [CHR 0x0A]) = Ok sample_key"
  using cursor_round_trip[OF sample_cursor(2,1), of "b64_encode sample_key_json @ [CHR 0x0A]"] by simp

text \<open>
  A malformed cursor is an error, never a panic: with a character outside the alphabet (padding
  included) the decoder reports the encoding, and in no case does it panic.
\<close>

theorem malformed_cursor_is_error:
  assumes "x \<in> set c" and "x \<notin> set b64_alphabet \<union> {CHR 0x0A, CHR 0x0D}"
  shows "(\<exists>e. decodeCursor L c = Fail (Wrapped ''godynamo: invalid cursor encoding'' e)) \<and>
    (\<forall>c' m. decodeCursor L c' \<noteq> Panic m)"
proof -
  have "b64_value x = None"
  proof (rule ccontr)
    assume "b64_value x \<noteq> None"
    then have "x \<in> set b64_alphabet" by (rule b64_value_alphabet)
    with assms(2) show False by simp
  qed
  then have "b64_values c = None" using b64_values_foreign[OF assms(1)] assms(2) by simp
  moreover have "decodeCursor L c' \<noteq> Panic m" for c' m
    by (cases "b64_decode c'"; cases "lib_map_of_json L (the (b64_decode c'))";
        cases "lib_marshal_any L (projr (lib_map_of_json L (the (b64_decode c'))))")
      (simp_all add: decodeCursor_def)
  ultimately show ?thesis by (simp add: decodeCursor_def b64_decode_def)
qed

theorem malformed_cursor_is_error_witness:
  "\<exists>e. decodeCursor sample_lib ''eyJ9=='' = Fail (Wrapped ''godynamo: invalid cursor encoding'' e)"
  using malformed_cursor_is_error[of "CHR ''=''" "''eyJ9==''" sample_lib]
  by (simp add: b64_alphabet_def)

end
