(* ===== verification/Query.thy ===== *)
theory Query
  imports Client_DB Paging Filters Cursor
begin

text \<open>
  \<open>query.go\<close>: the query builder, the request it builds, and its two terminal methods. The
  builder methods update the builder in place and return it; here they are functions on its record.
  \<open>All\<close> is \<open>None\<close> exactly when its loop does not end, that is, when the service never
  stops naming a next page.
\<close>

section \<open>The builder\<close>

datatype sk_condition_kind = skNone | skEquals | skBeginsWith | skBetween

record sk_condition =
  sk_kind :: sk_condition_kind
  sk_lo :: string
  sk_hi :: string

record ('c, 'w) query_builder =
  qb_type :: gtype
  qb_db :: "('c, 'w) db"
  qb_pk :: "string option"
  qb_sk :: sk_condition
  qb_filters :: "filter_condition list"
  qb_index :: string
  qb_limit :: "32 word option"

definition Query :: "gtype \<Rightarrow> ('c, 'w) db \<Rightarrow> ('c, 'w) query_builder" where
  "Query t d =
     \<lparr>qb_type = t, qb_db = d, qb_pk = None,
      qb_sk = \<lparr>sk_kind = skNone, sk_lo = [], sk_hi = []\<rparr>,
      qb_filters = [], qb_index = [], qb_limit = None\<rparr>"

definition WherePK :: "string \<Rightarrow> ('c, 'w) query_builder \<Rightarrow> ('c, 'w) query_builder" where
  "WherePK pk b = b\<lparr>qb_pk := Some pk\<rparr>"

definition SKEquals :: "string \<Rightarrow> ('c, 'w) query_builder \<Rightarrow> ('c, 'w) query_builder" where
  "SKEquals sk b = b\<lparr>qb_sk := \<lparr>sk_kind = skEquals, sk_lo = sk, sk_hi = []\<rparr>\<rparr>"

definition SKBeginsWith :: "string \<Rightarrow> ('c, 'w) query_builder \<Rightarrow> ('c, 'w) query_builder" where
  "SKBeginsWith prefix b = b\<lparr>qb_sk := \<lparr>sk_kind = skBeginsWith, sk_lo = prefix, sk_hi = []\<rparr>\<rparr>"

definition SKBetween :: "string \<Rightarrow> string \<Rightarrow> ('c, 'w) query_builder \<Rightarrow> ('c, 'w) query_builder" where
  "SKBetween lo hi b = b\<lparr>qb_sk := \<lparr>sk_kind = skBetween, sk_lo = lo, sk_hi = hi\<rparr>\<rparr>"

definition Query_addFilter ::
    "('c, 'w) query_builder \<Rightarrow> filter_op \<Rightarrow> string \<Rightarrow> go_any \<Rightarrow> ('c, 'w) query_builder" where
  "Query_addFilter b op field v =
     (let attr = resolve_attr_name (qb_type b) field in
      b\<lparr>qb_filters := qb_filters b @ [\<lparr>fc_op = op, fc_field = attr, fc_value = v\<rparr>]\<rparr>)"

definition Query_Filter :: "string \<Rightarrow> go_any \<Rightarrow> ('c, 'w) query_builder \<Rightarrow> ('c, 'w) query_builder" where
  "Query_Filter field v b = Query_addFilter b filterEqual field v"

definition Query_FilterEqual :: "string \<Rightarrow> go_any \<Rightarrow> ('c, 'w) query_builder \<Rightarrow> ('c, 'w) query_builder" where
  "Query_FilterEqual field v b = Query_addFilter b filterEqual field v"

definition Query_FilterNotEqual :: "string \<Rightarrow> go_any \<Rightarrow> ('c, 'w) query_builder \<Rightarrow> ('c, 'w) query_builder" where
  "Query_FilterNotEqual field v b = Query_addFilter b filterNotEqual field v"

definition Query_FilterGreaterThan :: "string \<Rightarrow> go_any \<Rightarrow> ('c, 'w) query_builder \<Rightarrow> ('c, 'w) query_builder" where
  "Query_FilterGreaterThan field v b = Query_addFilter b filterGreaterThan field v"

definition Query_FilterGreaterOrEqual :: "string \<Rightarrow> go_any \<Rightarrow> ('c, 'w) query_builder \<Rightarrow> ('c, 'w) query_builder" where
  "Query_FilterGreaterOrEqual field v b = Query_addFilter b filterGreaterOrEqual field v"

definition Query_FilterLessThan :: "string \<Rightarrow> go_any \<Rightarrow> ('c, 'w) query_builder \<Rightarrow> ('c, 'w) query_builder" where
  "Query_FilterLessThan field v b = Query_addFilter b filterLessThan field v"

definition Query_FilterLessOrEqual :: "string \<Rightarrow> go_any \<Rightarrow> ('c, 'w) query_builder \<Rightarrow> ('c, 'w) query_builder" where
  "Query_FilterLessOrEqual field v b = Query_addFilter b filterLessOrEqual field v"

definition Query_FilterBeginsWith :: "string \<Rightarrow> string \<Rightarrow> ('c, 'w) query_builder \<Rightarrow> ('c, 'w) query_builder" where
  "Query_FilterBeginsWith field prefix b =
     Query_addFilter b filterBeginsWith field (Some (TString, VStr prefix))"

definition Query_FilterContains :: "string \<Rightarrow> go_any \<Rightarrow> ('c, 'w) query_builder \<Rightarrow> ('c, 'w) query_builder" where
  "Query_FilterContains field v b = Query_addFilter b filterContains field v"

definition Query_FilterExists :: "string \<Rightarrow> ('c, 'w) query_builder \<Rightarrow> ('c, 'w) query_builder" where
  "Query_FilterExists field b = Query_addFilter b filterExists field None"

definition Query_FilterNotExists :: "string \<Rightarrow> ('c, 'w) query_builder \<Rightarrow> ('c, 'w) query_builder" where
  "Query_FilterNotExists field b = Query_addFilter b filterNotExists field None"

definition Index :: "string \<Rightarrow> ('c, 'w) query_builder \<Rightarrow> ('c, 'w) query_builder" where
  "Index name b = b\<lparr>qb_index := name\<rparr>"

definition Query_Limit :: "32 word \<Rightarrow> ('c, 'w) query_builder \<Rightarrow> ('c, 'w) query_builder" where
  "Query_Limit n b = b\<lparr>qb_limit := Some n\<rparr>"

section \<open>The request\<close>

text \<open>The partition part and the index name; then the sort-key part.\<close>

definition partition_condition :: "('c, 'w) query_builder \<Rightarrow> key_condition \<times> string option" where
  "partition_condition b =
     (case qb_pk b of
        Some pk \<Rightarrow> (KeyEqual ''PK'' (Some (TString, VStr pk)), None)
      | None \<Rightarrow>
          (let typeName = type_name (qb_type b);
               idx = (if qb_index b \<noteq> [] then qb_index b else db_gsi1Name (qb_db b))
           in (KeyEqual (db_gsi1PKAttr (qb_db b)) (Some (TString, VStr typeName)), Some idx)))"

definition and_sort_key :: "sk_condition \<Rightarrow> key_condition \<Rightarrow> key_condition" where
  "and_sort_key sk keyCond =
     (case sk_kind sk of
        skNone \<Rightarrow> keyCond
      | skEquals \<Rightarrow> KeyAnd keyCond (KeyEqual ''SK'' (Some (TString, VStr (sk_lo sk))))
      | skBeginsWith \<Rightarrow> KeyAnd keyCond (KeyBeginsWith ''SK'' (sk_lo sk))
      | skBetween \<Rightarrow> KeyAnd keyCond
          (KeyBetween ''SK'' (Some (TString, VStr (sk_lo sk))) (Some (TString, VStr (sk_hi sk)))))"

definition Query_buildInput :: "'w lib \<Rightarrow> ('c, 'w) query_builder \<Rightarrow> query_input outcome" where
  "Query_buildInput L b =
     (case partition_condition b of (pkCond, indexName) \<Rightarrow>
      let eb = no_parts\<lparr>ex_key := Some (and_sort_key (qb_sk b) pkCond)\<rparr> in
      and_then
        (if qb_filters b \<noteq> []
         then map_ok (\<lambda>c. eb\<lparr>ex_filter := Some c\<rparr>) (filterExpression (qb_filters b))
         else Ok eb) (\<lambda>eb.
      and_then (wrap_fail ''godynamo: building query expression'' (build_expr L eb)) (\<lambda>ex.
        Ok \<lparr>qi_table = db_table (qb_db b), qi_index = indexName,
            qi_key_condition = ex_key ex, qi_filter = ex_filter ex,
            qi_limit = qb_limit b, qi_start = fmempty\<rparr>)))"

section \<open>The terminal methods\<close>

definition query_call ::
    "('c, 'w) query_builder \<Rightarrow> query_input \<Rightarrow> ('w st, page) act" where
  "query_call b input s =
     map_fail (Wrapped (''godynamo: query '' @ type_name (qb_type b)))
       (api (QueryCall (db_client (qb_db b))) input s)"

partial_function (option) query_loop ::
    "'w lib \<Rightarrow> ('c, 'w) query_builder \<Rightarrow> query_input \<Rightarrow> gval list \<Rightarrow> 'w st \<Rightarrow>
     (gval list outcome \<times> 'w st) option" where
  "query_loop L b input items s =
     (case query_call b input s of
        (Ok out, s1) \<Rightarrow>
          (case unmarshal_items L (qb_type b) (pg_items out) of
             Ok xs \<Rightarrow>
               (if pg_last out = fmempty then Some (Ok (items @ xs), s1)
                else query_loop L b (input\<lparr>qi_start := pg_last out\<rparr>) (items @ xs) s1)
           | Fail e \<Rightarrow> Some (Fail e, s1)
           | Panic m \<Rightarrow> Some (Panic m, s1))
      | (Fail e, s1) \<Rightarrow> Some (Fail e, s1)
      | (Panic m, s1) \<Rightarrow> Some (Panic m, s1))"

definition Query_All ::
    "'w lib \<Rightarrow> ('c, 'w) query_builder \<Rightarrow> 'w st \<Rightarrow> (gval list outcome \<times> 'w st) option" where
  "Query_All L b s =
     (case Query_buildInput L b of
        Ok input \<Rightarrow> query_loop L b input [] s
      | Fail e \<Rightarrow> Some (Fail e, s)
      | Panic m \<Rightarrow> Some (Panic m, s))"

definition next_cursor :: "'w lib \<Rightarrow> item \<Rightarrow> string outcome" where
  "next_cursor L key =
     (if key = fmempty then Ok [] else wrap_fail ''godynamo: encoding cursor'' (encodeCursor L key))"

definition start_at :: "'w lib \<Rightarrow> string \<Rightarrow> query_input \<Rightarrow> query_input outcome" where
  "start_at L cursor input =
     (if cursor \<noteq> []
      then map_ok (\<lambda>key. input\<lparr>qi_start := key\<rparr>)
        (wrap_fail ''godynamo: decoding cursor'' (decodeCursor L cursor))
      else Ok input)"

definition Query_Page ::
    "'w lib \<Rightarrow> ('c, 'w) query_builder \<Rightarrow> string \<Rightarrow> ('w st, gval list \<times> string) act" where
  "Query_Page L b cursor s =
     continue (Query_buildInput L b, s) (\<lambda>input s.
     continue (start_at L cursor input, s) (\<lambda>input s.
     continue (query_call b input s) (\<lambda>out s.
       (and_then (unmarshal_items L (qb_type b) (pg_items out)) (\<lambda>items.
          map_ok (\<lambda>nextCursor. (items, nextCursor)) (next_cursor L (pg_last out))), s))))"

section \<open>Lemmas\<close>

lemmas query_filter_calls = Query_Filter_def Query_FilterEqual_def Query_FilterNotEqual_def
  Query_FilterGreaterThan_def Query_FilterGreaterOrEqual_def Query_FilterLessThan_def
  Query_FilterLessOrEqual_def Query_FilterBeginsWith_def Query_FilterContains_def
  Query_FilterExists_def Query_FilterNotExists_def

interpretation qf: filter_builder qb_filters qb_type Query_addFilter
  by unfold_locales (simp_all add: Query_addFilter_def resolved_filter_def Let_def)

definition query_next :: "query_input \<Rightarrow> page \<Rightarrow> query_input option" where
  "query_next i p = (if pg_last p = fmempty then None else Some (i\<lparr>qi_start := pg_last p\<rparr>))"

interpretation qp: paginator "query_call b" query_next pg_items "unmarshal_item L (qb_type b)" "query_loop L b"
  for L :: "'w lib" and b :: "('c, 'w) query_builder"
proof unfold_locales
  fix i acc s
  show "query_loop L b i acc s = (case query_call b i s of
         (Ok p, s1) \<Rightarrow>
           (case traverse (unmarshal_item L (qb_type b)) (pg_items p) of
              Ok xs \<Rightarrow> (case query_next i p of
                   None \<Rightarrow> Some (Ok (acc @ xs), s1)
                 | Some j \<Rightarrow> query_loop L b j (acc @ xs) s1)
            | Fail e \<Rightarrow> Some (Fail e, s1)
            | Panic m \<Rightarrow> Some (Panic m, s1))
       | (Fail e, s1) \<Rightarrow> Some (Fail e, s1)
       | (Panic m, s1) \<Rightarrow> Some (Panic m, s1))"
    by (subst query_loop.simps) (simp add: unmarshal_items_def query_next_def split: prod.split outcome.split)
next
  fix i acc s r and P :: "query_input \<Rightarrow> gval list \<Rightarrow> 'w st \<Rightarrow> gval list outcome \<times> 'w st \<Rightarrow> bool"
  assume loop: "query_loop L b i acc s = Some r"
    and last: "\<And>i acc s p s1 xs. query_call b i s = (Ok p, s1) \<Longrightarrow>
      traverse (unmarshal_item L (qb_type b)) (pg_items p) = Ok xs \<Longrightarrow> query_next i p = None \<Longrightarrow>
      P i acc s (Ok (acc @ xs), s1)"
    and more: "\<And>i acc s p s1 xs j r. query_call b i s = (Ok p, s1) \<Longrightarrow>
      traverse (unmarshal_item L (qb_type b)) (pg_items p) = Ok xs \<Longrightarrow> query_next i p = Some j \<Longrightarrow>
      P j (acc @ xs) s1 r \<Longrightarrow> P i acc s r"
    and bad: "\<And>i acc s p s1 r. query_call b i s = (Ok p, s1) \<Longrightarrow>
      traverse (unmarshal_item L (qb_type b)) (pg_items p) = r \<Longrightarrow> (\<And>xs. r \<noteq> Ok xs) \<Longrightarrow> P i acc s (r, s1)"
    and fail: "\<And>i acc s e s1. query_call b i s = (Fail e, s1) \<Longrightarrow> P i acc s (Fail e, s1)"
    and panic: "\<And>i acc s m s1. query_call b i s = (Panic m, s1) \<Longrightarrow> P i acc s (Panic m, s1)"
  show "P i acc s r"
  proof (rule query_loop.raw_induct[OF _ loop, where P = "\<lambda>L' b' i acc s r. L' = L \<longrightarrow> b' = b \<longrightarrow> P i acc s r",
        THEN mp, OF _ refl, THEN mp, OF _ refl], goal_cases)
    case (1 rec L' b' i acc s r)
    from 1(2) show ?case
      by (auto simp: query_next_def unmarshal_items_def
          intro: last bad fail panic more[OF _ _ _ 1(1)[rule_format]]
          split: prod.splits outcome.splits if_splits)
  qed
qed

lemma Query_All_start:
  "Query_All L b s = Some (Ok xs, s') \<longleftrightarrow>
   (\<exists>i. Query_buildInput L b = Ok i \<and> query_loop L b i [] s = Some (Ok xs, s'))"
  by (auto simp: Query_All_def split: outcome.splits)

lemma Query_All_pages:
  "Query_All L b s = Some (Ok xs, s') \<longleftrightarrow>
   (\<exists>i ps. Query_buildInput L b = Ok i \<and> all_pages (query_call b) query_next i s ps s' \<and>
     unmarshal_items L (qb_type b) (concat (map pg_items ps)) = Ok xs)"
proof
  assume "Query_All L b s = Some (Ok xs, s')"
  then obtain i where i: "Query_buildInput L b = Ok i" "query_loop L b i [] s = Some (Ok xs, s')"
    unfolding Query_All_start by blast
  from qp.loop_sound[OF i(2)] i(1)
  show "\<exists>i ps. Query_buildInput L b = Ok i \<and> all_pages (query_call b) query_next i s ps s' \<and>
     unmarshal_items L (qb_type b) (concat (map pg_items ps)) = Ok xs"
    by (auto simp: unmarshal_items_def)
next
  assume "\<exists>i ps. Query_buildInput L b = Ok i \<and> all_pages (query_call b) query_next i s ps s' \<and>
     unmarshal_items L (qb_type b) (concat (map pg_items ps)) = Ok xs"
  then show "Query_All L b s = Some (Ok xs, s')"
    unfolding Query_All_start by (auto simp: unmarshal_items_def dest: qp.loop_all[where acc = "[]"])
qed

text \<open>A page request differs from the built one in its start key only.\<close>

lemma Query_Page_Ok:
  "Query_Page L b c s = (Ok (xs, c'), s') \<longleftrightarrow>
   (\<exists>i j out. Query_buildInput L b = Ok i \<and> start_at L c i = Ok j \<and> query_call b j s = (Ok out, s') \<and>
     unmarshal_items L (qb_type b) (pg_items out) = Ok xs \<and> next_cursor L (pg_last out) = Ok c')"
  by (auto simp: Query_Page_def continue_Ok)

lemma start_at_cursor:
  assumes "cursor_law L key" and "key \<noteq> fmempty" and "next_cursor L key = Ok c"
  shows "c \<noteq> [] \<and> start_at L c i = Ok (i\<lparr>qi_start := key\<rparr>)"
  using assms encodeCursor_not_empty[of L key c] cur.round_trip[of L key c]
  by (simp add: next_cursor_def start_at_def)

text \<open>A client that asks for page after page, handing each cursor back.\<close>

inductive page_walk ::
    "'w lib \<Rightarrow> ('c, 'w) query_builder \<Rightarrow> string \<Rightarrow> 'w st \<Rightarrow> gval list \<Rightarrow> 'w st \<Rightarrow> bool"
  for L b where
  end_of_pages: "Query_Page L b c s = (Ok (xs, []), s') \<Longrightarrow> page_walk L b c s xs s'"
| another_page: "Query_Page L b c s = (Ok (xs, c'), s1) \<Longrightarrow> c' \<noteq> [] \<Longrightarrow> page_walk L b c' s1 ys s' \<Longrightarrow>
    page_walk L b c s (xs @ ys) s'"

definition lawful_cursors :: "'w lib \<Rightarrow> ('c, 'w) query_builder \<Rightarrow> bool" where
  "lawful_cursors L b \<longleftrightarrow>
     (\<forall>i s out s'. query_call b i s = (Ok out, s') \<longrightarrow> cursor_law L (pg_last out))"

lemma page_walk_chain:
  assumes "page_walk L b c s xs s'" and "lawful_cursors L b" and "Query_buildInput L b = Ok i0"
    and "start_at L c i0 = Ok i"
  shows "\<exists>ps. all_pages (query_call b) query_next i s ps s' \<and>
    unmarshal_items L (qb_type b) (concat (map pg_items ps)) = Ok xs"
  using assms(1,4)
proof (induction arbitrary: i rule: page_walk.induct)
  case (end_of_pages c s xs s')
  then obtain out where out: "query_call b i s = (Ok out, s')"
      "unmarshal_items L (qb_type b) (pg_items out) = Ok xs" "next_cursor L (pg_last out) = Ok []"
    unfolding Query_Page_Ok using assms(3) by auto
  have "pg_last out = fmempty"
    using start_at_cursor[OF _ _ out(3)] out(1) assms(2) by (auto simp: lawful_cursors_def)
  with out show ?case by (auto intro!: exI[of _ "[out]"] all_pages.last simp: query_next_def)
next
  case (another_page c s xs c' s1 ys s')
  then obtain out where out: "query_call b i s = (Ok out, s1)"
      "unmarshal_items L (qb_type b) (pg_items out) = Ok xs" "next_cursor L (pg_last out) = Ok c'"
    unfolding Query_Page_Ok using assms(3) by auto
  have ne: "pg_last out \<noteq> fmempty" using out(3) another_page.hyps(2) by (auto simp: next_cursor_def)
  have law: "cursor_law L (pg_last out)" using out(1) assms(2) by (auto simp: lawful_cursors_def)
  have "start_at L c' i0 = Ok (i0\<lparr>qi_start := pg_last out\<rparr>)"
    using start_at_cursor[OF law ne out(3)] by blast
  moreover have "i0\<lparr>qi_start := pg_last out\<rparr> = i\<lparr>qi_start := pg_last out\<rparr>"
    using another_page.prems by (auto simp: start_at_def split: if_splits)
  ultimately obtain ps where "all_pages (query_call b) query_next (i\<lparr>qi_start := pg_last out\<rparr>) s1 ps s'"
      and "unmarshal_items L (qb_type b) (concat (map pg_items ps)) = Ok ys"
    using another_page.IH by metis
  moreover have "query_next i out = Some (i\<lparr>qi_start := pg_last out\<rparr>)" using ne by (simp add: query_next_def)
  ultimately show ?case
    using out by (auto intro!: exI[of _ "out # ps"] all_pages.more simp: unmarshal_items_def traverse_append)
qed

text \<open>The page keys of this query can be turned into cursors (their attributes are scalars).\<close>

definition encodable_keys :: "'w lib \<Rightarrow> ('c, 'w) query_builder \<Rightarrow> bool" where
  "encodable_keys L b \<longleftrightarrow>
     (\<forall>i s out s'. query_call b i s = (Ok out, s') \<longrightarrow> (\<exists>c. next_cursor L (pg_last out) = Ok c))"

lemma chain_page_walk:
  assumes "all_pages (query_call b) query_next i s ps s'" and "lawful_cursors L b" and "encodable_keys L b"
    and "Query_buildInput L b = Ok i0" and "start_at L c i0 = Ok i"
    and "unmarshal_items L (qb_type b) (concat (map pg_items ps)) = Ok xs"
  shows "page_walk L b c s xs s'"
  using assms(1,5,6)
proof (induction arbitrary: c xs rule: all_pages.induct)
  case (last i s out s')
  then have "pg_last out = fmempty" by (simp add: query_next_def split: if_splits)
  with last show ?case
    by (intro page_walk.end_of_pages) (auto simp: Query_Page_Ok assms(4) next_cursor_def)
next
  case (more i s out s1 j ps s')
  then have ne: "pg_last out \<noteq> fmempty" and j: "j = i\<lparr>qi_start := pg_last out\<rparr>"
    by (auto simp: query_next_def split: if_splits)
  obtain xs1 ys where xs: "unmarshal_items L (qb_type b) (pg_items out) = Ok xs1"
      "unmarshal_items L (qb_type b) (concat (map pg_items ps)) = Ok ys" "xs = xs1 @ ys"
    using more.prems(2) by (auto simp: unmarshal_items_def traverse_append)
  obtain c' where c': "next_cursor L (pg_last out) = Ok c'"
    using more.hyps(1) assms(3) unfolding encodable_keys_def by blast
  have "cursor_law L (pg_last out)" using more.hyps(1) assms(2) by (auto simp: lawful_cursors_def)
  from start_at_cursor[OF this ne c'] have "c' \<noteq> []" "start_at L c' i0 = Ok (i0\<lparr>qi_start := pg_last out\<rparr>)"
    by auto
  moreover have "i0\<lparr>qi_start := pg_last out\<rparr> = j"
    using more.prems(1) j by (auto simp: start_at_def split: if_splits)
  ultimately show ?case
    unfolding xs(3) using more.IH[OF _ xs(2)] more.hyps(1) more.prems(1) xs(1) c'
    by (auto simp: Query_Page_Ok assms(4) intro!: page_walk.another_page)
qed

text \<open>Builder calls that leave the sort-key condition alone.\<close>

inductive other_call :: "(('c, 'w) query_builder \<Rightarrow> ('c, 'w) query_builder) \<Rightarrow> bool" where
  "other_call (WherePK pk)"
| "other_call (\<lambda>b. Query_addFilter b op field v)"
| "other_call (Index n)"
| "other_call (Query_Limit l)"

definition no_sort_key :: "('c, 'w) query_builder \<Rightarrow> ('c, 'w) query_builder" where
  "no_sort_key b = b\<lparr>qb_sk := qb_sk (Query (qb_type b) (qb_db b))\<rparr>"

lemma other_call_commutes:
  "other_call f \<Longrightarrow> f (b\<lparr>qb_sk := sk\<rparr>) = (f b)\<lparr>qb_sk := sk\<rparr> \<and> qb_sk (f b) = qb_sk b \<and>
   qb_type (f b) = qb_type b \<and> qb_db (f b) = qb_db b"
  by (induction rule: other_call.induct)
    (simp_all add: WherePK_def Query_addFilter_def Index_def Query_Limit_def Let_def)

lemma other_calls_commute:
  "list_all other_call fs \<Longrightarrow>
   fold (\<lambda>f b. f b) fs (b\<lparr>qb_sk := sk\<rparr>) = (fold (\<lambda>f b. f b) fs b)\<lparr>qb_sk := sk\<rparr>"
  by (induction fs arbitrary: b) (simp_all add: other_call_commutes)

section \<open>Properties\<close>

text \<open>
  C8: \<open>All\<close> succeeds exactly when the request can be built, the chain of pages from it ends
  and every item unmarshals; it then returns the items of all pages, each once, in the order of the
  pages.
\<close>

theorem query_all_is_all_pages:
  "Query_All L b s = Some (Ok xs, s') \<longleftrightarrow>
   (\<exists>i ps. Query_buildInput L b = Ok i \<and> all_pages (query_call b) query_next i s ps s' \<and>
     list_all2 (\<lambda>av x. unmarshal_item L (qb_type b) av = Ok x) (concat (map pg_items ps)) xs)"
  by (simp add: Query_All_pages unmarshal_items_def traverse_Ok)

text \<open>
  C32: \<open>All\<close> returns whenever the service's chain of pages is finite; and a call that fails,
  after however many pages, ends it with that call's error, named with the type, and without the items
  read so far.
\<close>

theorem query_all_terminates:
  assumes "Query_buildInput L b = Ok i"
  shows "(all_pages (query_call b) query_next i s ps s' \<longrightarrow> (\<exists>r. Query_All L b s = Some r)) \<and>
    (fetches (query_call b) query_next i s ps j s1 \<longrightarrow>
     list_all2 (\<lambda>av x. unmarshal_item L (qb_type b) av = Ok x) (concat (map pg_items ps)) xs \<longrightarrow>
     QueryCall (db_client (qb_db b)) j (world s1) = (Inl e, w) \<longrightarrow>
     Query_All L b s = Some (Fail (Wrapped (''godynamo: query '' @ type_name (qb_type b)) e), s1\<lparr>world := w\<rparr>))"
proof (intro conjI impI)
  assume "all_pages (query_call b) query_next i s ps s'"
  from qp.loop_terminates[OF this] show "\<exists>r. Query_All L b s = Some r"
    by (simp add: Query_All_def assms)
next
  assume "fetches (query_call b) query_next i s ps j s1"
    and "list_all2 (\<lambda>av x. unmarshal_item L (qb_type b) av = Ok x) (concat (map pg_items ps)) xs"
    and "QueryCall (db_client (qb_db b)) j (world s1) = (Inl e, w)"
  from qp.loop_fails[OF this(1), where acc = "[]"] this(2,3)
  show "Query_All L b s = Some (Fail (Wrapped (''godynamo: query '' @ type_name (qb_type b)) e), s1\<lparr>world := w\<rparr>)"
    by (simp add: Query_All_def assms traverse_Ok query_call_def api_def)
qed

text \<open>
  C9: A client that pages with \<open>Page\<close>, handing each cursor back until it is empty, sees
  exactly the items that \<open>All\<close> returns, and leaves the same state; and whenever \<open>All\<close> returns, such
  a client comes to the end too (given that the page keys can be encoded as cursors).
\<close>

theorem paging_agrees_with_all:
  assumes "lawful_cursors L b"
  shows "(page_walk L b [] s xs s' \<longrightarrow> Query_All L b s = Some (Ok xs, s')) \<and>
    (encodable_keys L b \<longrightarrow> Query_All L b s = Some (Ok xs, s') \<longrightarrow> page_walk L b [] s xs s')"
proof (intro conjI impI)
  assume walk: "page_walk L b [] s xs s'"
  obtain i where i: "Query_buildInput L b = Ok i"
    using walk by (cases rule: page_walk.cases) (auto simp: Query_Page_Ok)
  moreover have "start_at L [] i = Ok i" by (simp add: start_at_def)
  ultimately show "Query_All L b s = Some (Ok xs, s')"
    using page_walk_chain[OF walk assms] unfolding Query_All_pages by blast
next
  assume "encodable_keys L b" and "Query_All L b s = Some (Ok xs, s')"
  then show "page_walk L b [] s xs s'"
    unfolding Query_All_pages by (auto intro: chain_page_walk[OF _ assms] simp: start_at_def)
qed

text \<open>
  C33: The filter of the request is the conjunction of all queued filters: an item passes it, under
  any reading of the atomic conditions, exactly when it passes each of them on the resolved attribute.
\<close>

theorem query_filter_is_conjunction:
  assumes "cs \<noteq> []"
    and "Query_buildInput L (fold (\<lambda>(op, field, v) b. Query_addFilter b op field v) cs (Query t d)) = Ok i"
  shows "\<exists>c. qi_filter i = Some c \<and> (\<forall>ev. cond_holds ev c \<longleftrightarrow>
    list_all (\<lambda>(op, field, v). ev (buildCondition (resolved_filter t op field v))) cs)"
proof -
  let ?b = "fold (\<lambda>(op, field, v) b. Query_addFilter b op field v) cs (Query t d)"
  have start: "qb_filters (Query t d) = []" "qb_type (Query t d) = t" by (simp_all add: Query_def)
  obtain c where c: "filterExpression (qb_filters ?b) = Ok c"
      "\<forall>ev. cond_holds ev c \<longleftrightarrow>
        list_all (\<lambda>(op, field, v). ev (buildCondition (resolved_filter t op field v))) cs"
    using qf.add_filters_meaning[OF start(1) assms(1)] start(2) unfolding qf.add_filters_def by auto
  have "qb_filters ?b \<noteq> []" using c(1) by auto
  then have "qi_filter i = Some c"
    using assms(2) c(1)
    by (auto simp: Query_buildInput_def build_expr_def Let_def split: prod.splits option.splits)
  with c(2) show ?thesis by blast
qed

text \<open>
  Only the last sort-key call counts: with any other builder calls after it, the builder is the
  one on which no earlier sort-key call was made.
\<close>

theorem last_sort_key_wins:
  assumes "list_all other_call fs"
  shows "fold (\<lambda>f b. f b) fs (SKEquals k b) = SKEquals k (fold (\<lambda>f b. f b) fs (no_sort_key b)) \<and>
    fold (\<lambda>f b. f b) fs (SKBeginsWith p b) = SKBeginsWith p (fold (\<lambda>f b. f b) fs (no_sort_key b)) \<and>
    fold (\<lambda>f b. f b) fs (SKBetween lo hi b) = SKBetween lo hi (fold (\<lambda>f b. f b) fs (no_sort_key b))"
  using other_calls_commute[OF assms]
  by (simp add: SKEquals_def SKBeginsWith_def SKBetween_def no_sort_key_def)

text \<open>
  The two modes. With a partition key the request goes to the base table and is restricted to
  that \<open>PK\<close>, whatever index is set; without one it goes to the selected index, or the default
  one, and is restricted to the items marked with the type's name.
\<close>

theorem query_modes:
  assumes "Query_buildInput L b = Ok i"
  shows "qi_table i = db_table (qb_db b) \<and> qi_limit i = qb_limit b \<and> qi_start i = fmempty \<and>
    qi_key_condition i = Some (and_sort_key (qb_sk b)
      (case qb_pk b of
         Some pk \<Rightarrow> KeyEqual ''PK'' (Some (TString, VStr pk))
       | None \<Rightarrow> KeyEqual (db_gsi1PKAttr (qb_db b)) (Some (TString, VStr (type_name (qb_type b)))))) \<and>
    (qb_pk b \<noteq> None \<longrightarrow> qi_index i = None \<and> Query_buildInput L (Index n b) = Ok i) \<and>
    (qb_pk b = None \<longrightarrow>
       qi_index i = Some (if qb_index b = [] then db_gsi1Name (qb_db b) else qb_index b))"
  using assms
  by (auto simp: Query_buildInput_def partition_condition_def build_expr_def Index_def Let_def no_parts_def
      split: option.splits if_splits)

section \<open>Witnesses\<close>

text \<open>A service that answers every query with the same two pages.\<close>

definition order_db :: "(unit, sworld) db" where
  "order_db = sample_db\<lparr>db_client := sample_client\<lparr>QueryCall :=
     (\<lambda>i w. (Inr (page_at (qi_start i) two_pages), w\<lparr>sw_calls := Suc (sw_calls w)\<rparr>))\<rparr>\<rparr>"

definition order_query :: "(unit, sworld) query_builder" where
  "order_query = WherePK ''Order#c1'' (Query order_type order_db)"

definition order_input :: query_input where
  "order_input = \<lparr>qi_table = ''t'', qi_index = None,
     qi_key_condition = Some (KeyEqual ''PK'' (Some (TString, VStr ''Order#c1''))), qi_filter = None,
     qi_limit = None, qi_start = fmempty\<rparr>"

definition paged_st :: "nat \<Rightarrow> sworld st" where
  "paged_st n = \<lparr>mem = (\<lambda>_. VStr []), world = two_pages\<lparr>sw_calls := n\<rparr>\<rparr>"

lemma order_query_type [simp]: "qb_type order_query = order_type" "qb_db order_query = order_db"
  by (simp_all add: order_query_def WherePK_def Query_def)

lemma order_query_input: "Query_buildInput sample_lib order_query = Ok order_input"
  by (simp add: Query_buildInput_def partition_condition_def and_sort_key_def order_query_def
      WherePK_def Query_def build_expr_def no_parts_def order_input_def order_db_def)

lemma order_query_calls:
  "query_call order_query order_input (paged_st n) =
     (Ok \<lparr>pg_items = [sample_row ''open'', sample_row ''paid''], pg_last = sample_key\<rparr>, paged_st (Suc n))"
  "query_call order_query (order_input\<lparr>qi_start := sample_key\<rparr>) (paged_st n) =
     (Ok \<lparr>pg_items = [sample_row ''sent''], pg_last = fmempty\<rparr>, paged_st (Suc n))"
  using page_at_two_pages[of "sw_calls two_pages"]
  by (simp_all add: query_call_def api_def order_db_def paged_st_def order_input_def)

lemma sample_key_not_empty [simp]: "sample_key \<noteq> fmempty"
  by (metis fmupd_not_empty sample_key_def)

lemma order_query_pages:
  "all_pages (query_call order_query) query_next order_input (paged_st 0)
     [\<lparr>pg_items = [sample_row ''open'', sample_row ''paid''], pg_last = sample_key\<rparr>,
      \<lparr>pg_items = [sample_row ''sent''], pg_last = fmempty\<rparr>] (paged_st 2)"
proof (rule all_pages.more)
  show "query_call order_query order_input (paged_st 0) =
      (Ok \<lparr>pg_items = [sample_row ''open'', sample_row ''paid''], pg_last = sample_key\<rparr>, paged_st 1)"
    by (simp add: order_query_calls)
  show "query_next order_input
      \<lparr>pg_items = [sample_row ''open'', sample_row ''paid''], pg_last = sample_key\<rparr> =
      Some (order_input\<lparr>qi_start := sample_key\<rparr>)"
    by (simp add: query_next_def)
  show "all_pages (query_call order_query) query_next (order_input\<lparr>qi_start := sample_key\<rparr>) (paged_st 1)
      [\<lparr>pg_items = [sample_row ''sent''], pg_last = fmempty\<rparr>] (paged_st 2)"
    by (rule all_pages.last) (simp_all add: order_query_calls query_next_def numeral_2_eq_2)
qed

theorem query_all_terminates_witness:
  "\<exists>r. Query_All sample_lib order_query (paged_st 0) = Some r"
  using query_all_terminates[OF order_query_input, THEN conjunct1] order_query_pages by blast

lemma order_query_lawful: "lawful_cursors sample_lib order_query"
proof -
  have "cursor_law sample_lib key" for key
    using fmmap_any_str[of key] sample_cursor(2)
    by (cases "key = sample_key") (auto simp: cursor_law_def sample_lib_def)
  then show ?thesis by (simp add: lawful_cursors_def)
qed

lemma order_query_page_walk:
  "page_walk sample_lib order_query [] (paged_st 0)
     ([row_value ''open'', row_value ''paid''] @ [row_value ''sent'']) (paged_st 2)"
proof (rule page_walk.another_page)
  let ?c = "b64_encode sample_key_json"
  show ne: "?c \<noteq> []" by (rule encodeCursor_not_empty[OF sample_cursor(2,1)])
  have cur: "next_cursor sample_lib sample_key = Ok ?c" by (simp add: next_cursor_def sample_cursor)
  have start: "start_at sample_lib ?c order_input = Ok (order_input\<lparr>qi_start := sample_key\<rparr>)"
    using start_at_cursor[OF sample_cursor(2) sample_key_not_empty cur] by blast
  show "Query_Page sample_lib order_query [] (paged_st 0) =
      (Ok ([row_value ''open'', row_value ''paid''], ?c), paged_st 1)"
    unfolding Query_Page_Ok
    by (auto simp: order_query_input start_at_def order_query_calls unmarshal_items_def cur)
  show "page_walk sample_lib order_query ?c (paged_st 1) [row_value ''sent''] (paged_st 2)"
    by (rule page_walk.end_of_pages, unfold Query_Page_Ok)
      (auto simp: order_query_input start order_query_calls unmarshal_items_def next_cursor_def numeral_2_eq_2)
qed

lemma order_query_encodable: "encodable_keys sample_lib order_query"
proof -
  have "\<exists>c. next_cursor sample_lib (pg_last out) = Ok c"
    if "query_call order_query i s = (Ok out, s')" for i out and s s' :: "sworld st"
    using that sample_cursor(1)
    by (auto simp: query_call_def api_def order_db_def page_at_def next_cursor_def two_pages_def Let_def
        sample_key_def nat_string.simps split: if_splits)
  then show ?thesis unfolding encodable_keys_def by blast
qed

theorem paging_agrees_with_all_witness:
  "Query_All sample_lib order_query (paged_st 0) =
     Some (Ok [row_value ''open'', row_value ''paid'', row_value ''sent''], paged_st 2) \<and>
   page_walk sample_lib order_query [] (paged_st 0)
     [row_value ''open'', row_value ''paid'', row_value ''sent''] (paged_st 2)"
  using paging_agrees_with_all[OF order_query_lawful,
      of "paged_st 0" "[row_value ''open'', row_value ''paid''] @ [row_value ''sent'']" "paged_st 2"]
    order_query_page_walk order_query_encodable by simp

lemma status_attr: "resolve_attr_name order_type ''Status'' = ''Status''"
  by (simp add: resolve_attr_name_def order_fields tag_lookup_def)

theorem query_filter_is_conjunction_witness:
  "\<exists>i c. Query_buildInput sample_lib (Query_FilterExists ''Status''
      (Query_Filter ''Status'' (Some (TString, VStr ''open'')) (Query order_type sample_db))) = Ok i \<and>
    qi_filter i = Some c \<and> (\<forall>ev. cond_holds ev c \<longleftrightarrow>
      ev (Compare CmpEq ''Status'' (Some (TString, VStr ''open''))) \<and> ev (AttrExists ''Status''))"
proof -
  let ?cs = "[(filterEqual, ''Status'', Some (TString, VStr ''open'')), (filterExists, ''Status'', None)]"
  let ?b = "fold (\<lambda>(op, field, v) b. Query_addFilter b op field v) ?cs (Query order_type sample_db)"
  have b: "?b = Query_FilterExists ''Status''
      (Query_Filter ''Status'' (Some (TString, VStr ''open'')) (Query order_type sample_db))"
    by (simp add: query_filter_calls)
  obtain i where i: "Query_buildInput sample_lib ?b = Ok i"
    by (simp add: Query_buildInput_def partition_condition_def Query_def Query_addFilter_def
        build_expr_def Let_def)
  from query_filter_is_conjunction[OF _ i] i show ?thesis
    unfolding b by (auto simp: resolved_filter_def buildCondition_def status_attr)
qed

theorem last_sort_key_wins_witness:
  "WherePK ''p'' (SKEquals ''k'' (SKBetween ''a'' ''b'' (Query order_type sample_db))) =
   SKEquals ''k'' (WherePK ''p'' (Query order_type sample_db))"
  using last_sort_key_wins[of "[WherePK ''p'']" "''k''" "SKBetween ''a'' ''b'' (Query order_type sample_db)"]
  by (simp add: other_call.intros no_sort_key_def SKBetween_def Query_def)

theorem query_modes_witness:
  "qi_index order_input = None \<and> Query_buildInput sample_lib (Index ''GSI9'' order_query) = Ok order_input"
  using query_modes[OF order_query_input, of "''GSI9''"] by (simp add: order_query_def WherePK_def)

end
