(* ===== verification/Table_Query.thy ===== *)
theory Table_Query
  imports Table Query
begin

text \<open>
  Writes meet queries: which key conditions the items match that \<open>stampAndMarshal\<close> builds.
\<close>

section \<open>Key conditions\<close>

text \<open>The documented meaning of a key condition on an item; strings are compared by their bytes.\<close>

fun bytes_le :: "string \<Rightarrow> string \<Rightarrow> bool" where
  "bytes_le [] ys = True"
| "bytes_le (x # xs) [] = False"
| "bytes_le (x # xs) (y # ys) = (of_char x < (of_char y :: nat) \<or> (x = y \<and> bytes_le xs ys))"

fun key_text :: "attr_val option \<Rightarrow> string option" where
  "key_text (Some (AVS s)) = Some s"
| "key_text _ = None"

fun any_text :: "go_any \<Rightarrow> string option" where
  "any_text (Some (TString, VStr s)) = Some s"
| "any_text _ = None"

fun key_matches :: "key_condition \<Rightarrow> item \<Rightarrow> bool" where
  "key_matches (KeyEqual n v) i = (key_text (fmlookup i n) \<noteq> None \<and> key_text (fmlookup i n) = any_text v)"
| "key_matches (KeyBeginsWith n p) i =
     (case key_text (fmlookup i n) of None \<Rightarrow> False | Some s \<Rightarrow> take (length p) s = p)"
| "key_matches (KeyBetween n lo hi) i =
     (case (key_text (fmlookup i n), any_text lo, any_text hi) of
        (Some s, Some l, Some h) \<Rightarrow> bytes_le l s \<and> bytes_le s h
      | _ \<Rightarrow> False)"
| "key_matches (KeyAnd c d) i = (key_matches c i \<and> key_matches d i)"

definition input_matches :: "query_input outcome \<Rightarrow> item \<Rightarrow> bool" where
  "input_matches r av = (case r of Ok i \<Rightarrow> (case qi_key_condition i of Some c \<Rightarrow> key_matches c av | None \<Rightarrow> True) | _ \<Rightarrow> False)"

section \<open>Lemmas\<close>

lemma bytes_le_refl [simp]: "bytes_le xs xs"
  by (induction xs) simp_all

section \<open>Properties\<close>

text \<open>
  C16: Writes and queries agree on the keys: the item of every write is matched by the query for its own
  partition key, with each kind of sort-key condition that its sort key satisfies. The type-index query
  matches the item of a create, and only that: the item that a later \<open>Put\<close> of the same entity stores is
  not in the type index any more (unless the entity marshals the index attribute itself).
\<close>

theorem written_items_answer_queries:
  assumes "lib_build_error L = (\<lambda>ps. None)" and "entity (mem s) t a m"
    and "db_gsi1PKAttr d \<notin> {''PK'', ''SK''}"
    and "stampAndMarshal L d ctx (ptr t a) s = (Ok (av, cond), s')"
    and "Keys L (mem s') (ptr t a) = Ok (pk, sk)" and "take (length p) sk = p"
    and "bytes_le lo sk" and "bytes_le sk hi"
    and "\<And>base. marshalItem L (mem s') (ptr t a) = Ok base \<Longrightarrow> fmlookup base (db_gsi1PKAttr d) = None"
  shows "input_matches (Query_buildInput L (WherePK pk (Query t d))) av \<and>
    input_matches (Query_buildInput L (SKEquals sk (WherePK pk (Query t d)))) av \<and>
    input_matches (Query_buildInput L (SKBeginsWith p (WherePK pk (Query t d)))) av \<and>
    input_matches (Query_buildInput L (SKBetween lo hi (WherePK pk (Query t d)))) av \<and>
    (input_matches (Query_buildInput L (Query t d)) av \<longleftrightarrow> m_CreatedAt m = 0)"
proof -
  obtain m' w where "stampAndMarshal L d ctx (ptr t a) s =
      (map_ok (\<lambda>av. (av, if m_CreatedAt m = 0 then AttrNotExists ''PK'' else version_equals (m_Version m)))
        (marshal_with_keys L d (stamped (mem s) t a m') t a (m_ID m) (m_CreatedAt m = 0)),
       s\<lparr>mem := stamped (mem s) t a m', world := w\<rparr>)"
    using stampAndMarshal_entity[OF assms(2), of L d ctx] by blast
  then have "marshal_with_keys L d (mem s') t a (m_ID m) (m_CreatedAt m = 0) = Ok av" using assms(4) by auto
  from marshal_with_keys_Ok[OF this] assms(5) obtain base where
    "marshalItem L (mem s') (ptr t a) = Ok base"
    "av = (let av' = fmupd ''SK'' (AVS sk) (fmupd ''PK'' (AVS pk) base)
      in if m_CreatedAt m = 0 then fmupd (db_gsi1PKAttr d) (AVS (type_name t)) av' else av')"
    by auto
  then have look: "fmlookup av ''PK'' = Some (AVS pk)" "fmlookup av ''SK'' = Some (AVS sk)"
      "fmlookup av (db_gsi1PKAttr d) = (if m_CreatedAt m = 0 then Some (AVS (type_name t)) else None)"
    using assms(3) assms(9) by (auto simp: Let_def)
  show ?thesis
    using assms(6-8)
    by (simp add: input_matches_def Query_buildInput_def build_expr_def Let_def no_parts_def assms(1) look
        Query_def WherePK_def SKEquals_def SKBeginsWith_def SKBetween_def partition_condition_def and_sort_key_def)
qed

section \<open>Witnesses\<close>

theorem written_items_answer_queries_witness:
  "\<exists>av c s'. stampAndMarshal sample_lib sample_db () (ptr task_type 0) (task_st saved_model ''n'' empty_world) =
      (Ok (av, c), s') \<and>
    input_matches (Query_buildInput sample_lib (SKBeginsWith ''Task#'' (WherePK ''Task#5'' (Query task_type sample_db)))) av \<and>
    \<not> input_matches (Query_buildInput sample_lib (Query task_type sample_db)) av"
proof -
  let ?s = "task_st saved_model ''n'' empty_world"
  let ?m = "stamped_update 1000 [] saved_model"
  obtain av c s' where r: "stampAndMarshal sample_lib sample_db () (ptr task_type 0) ?s = (Ok (av, c), s')"
    and h: "mem s' 0 = task_value ?m ''n''"
    by (simp add: task_st_update Let_def empty_world_def)
  have e: "entity (mem ?s) task_type 0 saved_model" by (rule task_entity) (simp add: task_st_def)
  have keys: "Keys sample_lib (mem s') (ptr task_type 0) = Ok (''Task#5'', ''Task#5'')"
    using h by (simp add: Keys_def task_keys[of _ _ ?m "''n''"] stamped_update_def nat_string.simps)
  have free: "fmlookup base (db_gsi1PKAttr sample_db) = None" if "marshalItem sample_lib (mem s') (ptr task_type 0) = Ok base" for base
    using that by (auto simp: marshalItem_def structValueOf_simps[OF parse_task] parse_task sample_fields
        compressJSON_def task_notes_attr h task_leaf_names)
  have "lib_build_error sample_lib = (\<lambda>ps. None)" by (simp add: fun_eq_iff)
  from written_items_answer_queries[OF this e _ r keys _ _ _ free, of "''Task#''" "''Task#5''" "''Task#5''"] r
  show ?thesis by auto
qed

end
