(* ===== verification/Chunks.thy ===== *)
theory Chunks
  imports Crud Paging
begin

text \<open>
  What the two batch builders share: the split of a slice into chunks that are run one after the
  other, and the bounded retry of what a call left unprocessed. Both are locales over the loops of
  \<open>batch.go\<close>, which the batch theory interprets; their runs are inductive relations.
\<close>

section \<open>Chunks\<close>

text \<open>The slices \<open>xs[start:min(start+size, len(xs))]\<close> of the loop over \<open>start\<close>.\<close>

definition go_slice :: "nat \<Rightarrow> nat \<Rightarrow> 'x list \<Rightarrow> 'x list" where
  "go_slice start stop xs = take (stop - start) (drop start xs)"

text \<open>The chunks of a run, their results, and the states between them.\<close>

inductive chunk_runs ::
    "('x list \<Rightarrow> ('s, 'y list) act) \<Rightarrow> 'x list list \<Rightarrow> 's \<Rightarrow> 'y list list \<Rightarrow> 's \<Rightarrow> bool"
  for run where
  finish: "chunk_runs run [] s [] s"
| chunk: "run c s = (Ok ys, s1) \<Longrightarrow> chunk_runs run cs s1 rs s' \<Longrightarrow> chunk_runs run (c # cs) s (ys # rs) s'"

text \<open>Contiguous chunks of a list, each of at most \<open>n\<close> and none empty.\<close>

definition chunks_of :: "nat \<Rightarrow> 'x list \<Rightarrow> 'x list list \<Rightarrow> bool" where
  "chunks_of n xs cs \<longleftrightarrow> concat cs = xs \<and> list_all (\<lambda>c. c \<noteq> [] \<and> length c \<le> n) cs"

locale chunked =
  fixes run :: "'x list \<Rightarrow> ('s, 'y list) act"
    and size :: nat
    and wrap :: "go_err \<Rightarrow> go_err"
    and loop :: "'x list \<Rightarrow> nat \<Rightarrow> 'y list \<Rightarrow> ('s, 'y list) act"
  assumes loop_eq: "loop xs start acc s =
      (if start < length xs
       then continue (map_fail wrap (run (go_slice start (min (start + size) (length xs)) xs) s))
         (\<lambda>ys s. loop xs (start + size) (acc @ ys) s)
       else (Ok acc, s))"
    and size_pos: "0 < size"
begin

text \<open>A successful run is a run of all chunks, in order, and returns all their results.\<close>

lemma loop_chunks:
  "loop xs start acc s = (Ok zs, s') \<Longrightarrow>
   \<exists>cs rs. chunks_of size (drop start xs) cs \<and> chunk_runs run cs s rs s' \<and> zs = acc @ concat rs"
proof (induction "length xs - start" arbitrary: start acc s rule: less_induct)
  case less
  show ?case
  proof (cases "start < length xs")
    case False
    with less.prems show ?thesis
      by (auto simp: loop_eq[of xs start acc s] chunks_of_def intro!: exI[of _ "[]"] chunk_runs.finish)
  next
    case True
    let ?c = "go_slice start (min (start + size) (length xs)) xs"
    obtain ys s1 where ys: "run ?c s = (Ok ys, s1)" "loop xs (start + size) (acc @ ys) s1 = (Ok zs, s')"
      using less.prems True by (auto simp: loop_eq[of xs start acc s] continue_Ok)
    have "length xs - (start + size) < length xs - start" using True size_pos by linarith
    from less.hyps[OF this ys(2)] obtain cs rs where
      cs: "chunks_of size (drop (start + size) xs) cs" "chunk_runs run cs s1 rs s'" "zs = (acc @ ys) @ concat rs"
      by blast
    have c: "?c = take size (drop start xs)" using True by (auto simp: go_slice_def min_def)
    have "?c @ drop (start + size) xs = drop start xs"
      by (metis add.commute append_take_drop_id c drop_drop)
    then have "chunks_of size (drop start xs) (?c # cs)"
      using cs(1) True size_pos by (auto simp: chunks_of_def c)
    moreover have "chunk_runs run (?c # cs) s (ys # rs) s'" by (rule chunk_runs.chunk[OF ys(1) cs(2)])
    ultimately show ?thesis using cs(3) by (intro exI[of _ "?c # cs"] exI[of _ "ys # rs"]) simp
  qed
qed

text \<open>A chunk that fails ends the run: no later chunk is sent, and no results are returned.\<close>

lemma loop_first_failure:
  assumes "start < length xs"
    and "run (go_slice start (min (start + size) (length xs)) xs) s = (Fail e, s1)"
  shows "loop xs start acc s = (Fail (wrap e), s1)"
  using assms by (simp add: loop_eq[of xs start acc s])

end

section \<open>Retries\<close>

text \<open>
  The calls for one chunk: each entry is a request with its results; \<open>un\<close> is what the last call
  left unprocessed. Each call after the first asks for exactly what the one before left, after a pause.
\<close>

inductive attempts ::
    "('x list \<Rightarrow> ('s, 'y list \<times> 'x list) act) \<Rightarrow> (nat \<Rightarrow> 's \<Rightarrow> 's) \<Rightarrow>
     nat \<Rightarrow> 'x list \<Rightarrow> 's \<Rightarrow> ('x list \<times> 'y list) list \<Rightarrow> 'x list \<Rightarrow> 's \<Rightarrow> bool"
  for call pause where
  one: "call req s = (Ok (ys, un), s1) \<Longrightarrow> attempts call pause n req s [(req, ys)] un s1"
| again: "call req s = (Ok (ys, un), s1) \<Longrightarrow> un \<noteq> [] \<Longrightarrow> attempts call pause (Suc n) un (pause n s1) tr un' s' \<Longrightarrow>
    attempts call pause n req s ((req, ys) # tr) un' s'"

locale retrying =
  fixes call :: "'x list \<Rightarrow> ('s, 'y list \<times> 'x list) act"
    and pause :: "nat \<Rightarrow> 's \<Rightarrow> 's"
    and give_up :: "'x list \<Rightarrow> go_err"
    and limit :: nat
    and loop :: "'x list \<Rightarrow> nat \<Rightarrow> 'y list \<Rightarrow> ('s, 'y list) act"
  assumes loop_eq: "loop req n acc s =
      continue (call req s) (\<lambda>(ys, un) s.
        if un = [] then (Ok (acc @ ys), s)
        else if limit \<le> n then (Fail (give_up un), s)
        else loop un (Suc n) (acc @ ys) (pause n s))"
begin

text \<open>Success: the last call left nothing, and the results of all calls are returned.\<close>

lemma loop_success:
  "loop req n acc s = (Ok zs, s') \<Longrightarrow> n \<le> limit \<Longrightarrow>
   \<exists>tr. attempts call pause n req s tr [] s' \<and> length tr \<le> Suc limit - n \<and> zs = acc @ concat (map snd tr)"
proof (induction "limit - n" arbitrary: req n acc s rule: less_induct)
  case less
  obtain ys un s1 where c: "call req s = (Ok (ys, un), s1)"
    using less.prems(1) by (auto simp: loop_eq[of req n acc s] continue_Ok)
  show ?case
  proof (cases "un = []")
    case True
    with less.prems c show ?thesis
      by (auto simp: loop_eq[of req n acc s] intro!: exI[of _ "[(req, ys)]"] attempts.one)
  next
    case False
    with less.prems(1) c have n: "n < limit" "loop un (Suc n) (acc @ ys) (pause n s1) = (Ok zs, s')"
      by (auto simp: loop_eq[of req n acc s] split: if_splits)
    have "limit - Suc n < limit - n" using n(1) by linarith
    from less.hyps[OF this n(2)] n(1) obtain tr where
      tr: "attempts call pause (Suc n) un (pause n s1) tr [] s'" "length tr \<le> Suc limit - Suc n"
        "zs = (acc @ ys) @ concat (map snd tr)"
      by auto
    from attempts.again[OF c False tr(1)] tr(2,3) n(1) show ?thesis
      by (intro exI[of _ "(req, ys) # tr"]) auto
  qed
qed

text \<open>Exhaustion: after \<open>limit\<close> retries that leave something, the loop gives up.\<close>

lemma loop_exhausted:
  "attempts call pause n req s tr un s' \<Longrightarrow> un \<noteq> [] \<Longrightarrow> n + length tr = Suc limit \<Longrightarrow>
   loop req n acc s = (Fail (give_up un), s')"
proof (induction arbitrary: acc rule: attempts.induct)
  case (one req s ys un s1 n)
  then show ?case by (subst loop_eq) simp
next
  case (again req s ys un s1 n tr un' s')
  have "tr \<noteq> []" using again.hyps(3) by (auto elim: attempts.cases)
  then have "n < limit" using again.prems(2) by (cases tr) auto
  with again show ?case by (simp add: loop_eq[of req n acc s])
qed

text \<open>And it succeeds as soon as a call leaves nothing, within the limit.\<close>

lemma loop_complete:
  "attempts call pause n req s tr un s' \<Longrightarrow> un = [] \<Longrightarrow> n + length tr \<le> Suc limit \<Longrightarrow>
   loop req n acc s = (Ok (acc @ concat (map snd tr)), s')"
proof (induction arbitrary: acc rule: attempts.induct)
  case (one req s ys un s1 n)
  then show ?case by (subst loop_eq) simp
next
  case (again req s ys un s1 n tr un' s')
  have "tr \<noteq> []" using again.hyps(3) by (auto elim: attempts.cases)
  then have "n < limit" using again.prems(2) by (cases tr) auto
  with again show ?case by (simp add: loop_eq[of req n acc s])
qed

end

section \<open>Builders that latch an error\<close>

text \<open>
  A builder that remembers its first error and ignores every call after it. Calls may panic.
\<close>

locale error_latch =
  fixes err_of :: "'b \<Rightarrow> go_err option"
    and call :: "'op \<Rightarrow> 'b \<Rightarrow> 'b outcome"
  assumes latched: "err_of b \<noteq> None \<Longrightarrow> call op b = Ok b"
begin

fun run_calls :: "'op list \<Rightarrow> 'b \<Rightarrow> 'b outcome" where
  "run_calls [] b = Ok b"
| "run_calls (op # ops) b = and_then (call op b) (run_calls ops)"

lemma run_calls_latched: "err_of b \<noteq> None \<Longrightarrow> run_calls ops b = Ok b"
  by (induction ops) (simp_all add: latched)

lemma first_error_stays:
  "and_then (run_calls before b) (call op) = Ok b' \<Longrightarrow> err_of b' \<noteq> None \<Longrightarrow>
   run_calls (before @ op # ops) b = Ok b'"
proof (induction before arbitrary: b)
  case Nil
  then show ?case by (simp add: run_calls_latched)
next
  case (Cons x before)
  then show ?case by (cases "call x b") simp_all
qed

end

end
