(* ===== verification/Batch.thy ===== *)
theory Batch
  imports Chunks
begin

text \<open>
  \<open>batch.go\<close>: the batched get and the batched write. Requests go to one table, so the request
  maps have the one key \<open>db.table\<close>; a missing key of a reply map is an empty slice.
\<close>

definition batchGetMaxKeys :: nat where "batchGetMaxKeys = 100"
definition batchWriteMaxRequests :: nat where "batchWriteMaxRequests = 25"
definition batchMaxRetries :: nat where "batchMaxRetries = 5"

text \<open>\<open>batchBackoff\<close>, in nanoseconds at 64 bits (\<open>time.Millisecond\<close> is 1000000).\<close>

definition batchBackoff :: "nat \<Rightarrow> go_int" where
  "batchBackoff attempt = (word_of_nat attempt + 1) * 10 * 1000000"

definition sleep_backoff :: "'w lib \<Rightarrow> nat \<Rightarrow> 'w st \<Rightarrow> 'w st" where
  "sleep_backoff L attempt s = s\<lparr>world := lib_sleep L (sint (batchBackoff attempt)) (world s)\<rparr>"

definition slice_at :: "string \<Rightarrow> (string, 'a list) fmap \<Rightarrow> 'a list" where
  "slice_at k m = (case fmlookup m k of None \<Rightarrow> [] | Some xs \<Rightarrow> xs)"

section \<open>Batched get\<close>

record ('c, 'w) batch_get_builder =
  gb_type :: gtype
  gb_db :: "('c, 'w) db"
  gb_ids :: "uuid list"

definition BatchGet :: "gtype \<Rightarrow> ('c, 'w) db \<Rightarrow> ('c, 'w) batch_get_builder" where
  "BatchGet t d = \<lparr>gb_type = t, gb_db = d, gb_ids = []\<rparr>"

definition IDs :: "uuid list \<Rightarrow> ('c, 'w) batch_get_builder \<Rightarrow> ('c, 'w) batch_get_builder" where
  "IDs ids b = b\<lparr>gb_ids := gb_ids b @ ids\<rparr>"

text \<open>One call and the unmarshaling of its items; the second result is what it left unprocessed.\<close>

definition get_call ::
    "'w lib \<Rightarrow> ('c, 'w) batch_get_builder \<Rightarrow> item list \<Rightarrow> ('w st, gval list \<times> item list) act" where
  "get_call L b request s =
     (let table = db_table (gb_db b) in
      continue
        (map_fail (Wrapped ''godynamo: batch get'')
          (api (BatchGetItem (db_client (gb_db b))) (fmupd table request fmempty) s)) (\<lambda>out s.
        (map_ok (\<lambda>items. (items, slice_at table (bg_unprocessed out)))
          (traverse (unmarshal_fresh L (gb_type b)) (slice_at table (bg_responses out))), s)))"

definition keys_left :: "item list \<Rightarrow> go_err" where
  "keys_left un =
     OtherErr (''godynamo: '' @ nat_string (length un) @ '' keys still unprocessed after '' @
       nat_string batchMaxRetries @ '' retries'')"

function get_attempts ::
    "'w lib \<Rightarrow> ('c, 'w) batch_get_builder \<Rightarrow> item list \<Rightarrow> nat \<Rightarrow> gval list \<Rightarrow> ('w st, gval list) act" where
  "get_attempts L b request attempt items s =
     (case get_call L b request s of
        (Ok (xs, unprocessed), s) \<Rightarrow>
          (if unprocessed = [] then (Ok (items @ xs), s)
           else if batchMaxRetries \<le> attempt then (Fail (keys_left unprocessed), s)
           else get_attempts L b unprocessed (attempt + 1) (items @ xs) (sleep_backoff L attempt s))
      | (Fail e, s) \<Rightarrow> (Fail e, s)
      | (Panic m, s) \<Rightarrow> (Panic m, s))"
  by pat_completeness auto
termination
  by (relation "measure (\<lambda>(L, b, request, attempt, items, s). Suc batchMaxRetries - attempt)") auto

definition BatchGet_runChunk ::
    "'w lib \<Rightarrow> ('c, 'w) batch_get_builder \<Rightarrow> item list \<Rightarrow> ('w st, gval list) act" where
  "BatchGet_runChunk L b keys = get_attempts L b keys 0 []"

function get_chunks ::
    "'w lib \<Rightarrow> ('c, 'w) batch_get_builder \<Rightarrow> item list \<Rightarrow> nat \<Rightarrow> gval list \<Rightarrow> ('w st, gval list) act" where
  "get_chunks L b keys start items s =
     (if start < length keys
      then
        (case map_fail (Wrapped (''batch get '' @ type_name (gb_type b)))
            (BatchGet_runChunk L b (go_slice start (min (start + batchGetMaxKeys) (length keys)) keys) s) of
           (Ok xs, s) \<Rightarrow> get_chunks L b keys (start + batchGetMaxKeys) (items @ xs) s
         | (Fail e, s) \<Rightarrow> (Fail e, s)
         | (Panic m, s) \<Rightarrow> (Panic m, s))
      else (Ok items, s))"
  by pat_completeness auto
termination
  by (relation "measure (\<lambda>(L, b, keys, start, items, s). length keys - start)")
    (auto simp: batchGetMaxKeys_def)

definition id_key :: "'w lib \<Rightarrow> heap \<Rightarrow> gtype \<Rightarrow> uuid \<Rightarrow> item outcome" where
  "id_key L h t i = map_ok (\<lambda>(pk, sk). itemKey pk sk) (zeroKeys L h t i)"

definition BatchGet_Run :: "'w lib \<Rightarrow> ('c, 'w) batch_get_builder \<Rightarrow> ('w st, gval list) act" where
  "BatchGet_Run L b s =
     continue (requiresDefaultKey (gb_type b) ''BatchGetBuilder.Run'', s) (\<lambda>_ s.
      if gb_ids b = [] then (Ok [], s)
      else continue (traverse (id_key L (mem s) (gb_type b)) (gb_ids b), s) (\<lambda>keys s.
        get_chunks L b keys 0 [] s))"

section \<open>Batched write\<close>

record batch_write_op =
  wo_put :: "addr option"
  wo_request :: write_request

record ('c, 'w) batch_write_builder =
  wb_type :: gtype
  wb_db :: "('c, 'w) db"
  wb_ops :: "batch_write_op list"
  wb_err :: "go_err option"

definition BatchWrite :: "gtype \<Rightarrow> ('c, 'w) db \<Rightarrow> ('c, 'w) batch_write_builder" where
  "BatchWrite t d = \<lparr>wb_type = t, wb_db = d, wb_ops = [], wb_err = None\<rparr>"

text \<open>\<open>Put\<close> stores each pointer, nil included, with the zero \<open>WriteRequest\<close>.\<close>

definition BatchWrite_Put ::
    "addr option list \<Rightarrow> ('c, 'w) batch_write_builder \<Rightarrow> ('c, 'w) batch_write_builder" where
  "BatchWrite_Put items b =
     (if wb_err b \<noteq> None then b
      else b\<lparr>wb_ops := wb_ops b @ map (\<lambda>p. \<lparr>wo_put = p, wo_request = EmptyReq\<rparr>) items\<rparr>)"

definition BatchWrite_Delete ::
    "'w lib \<Rightarrow> heap \<Rightarrow> uuid list \<Rightarrow> ('c, 'w) batch_write_builder \<Rightarrow> ('c, 'w) batch_write_builder outcome" where
  "BatchWrite_Delete L h ids b =
     (if wb_err b \<noteq> None then Ok b
      else
        (case requiresDefaultKey (wb_type b) ''BatchWriteBuilder.Delete'' of
           Fail e \<Rightarrow> Ok (b\<lparr>wb_err := Some e\<rparr>)
         | Panic m \<Rightarrow> Panic m
         | Ok _ \<Rightarrow>
             map_ok (\<lambda>keys. b\<lparr>wb_ops := wb_ops b @
                 map (\<lambda>k. \<lparr>wo_put = None, wo_request = DeleteReq k\<rparr>) keys\<rparr>)
               (traverse (id_key L h (wb_type b)) ids)))"

text \<open>The loop that stamps and marshals the queued entities, in order.\<close>

fun write_requests ::
    "'w lib \<Rightarrow> ('c, 'w) db \<Rightarrow> gtype \<Rightarrow> 'c \<Rightarrow> batch_write_op list \<Rightarrow> ('w st, write_request list) act" where
  "write_requests L d t ctx [] s = (Ok [], s)"
| "write_requests L d t ctx (op # ops) s =
     continue
       (case wo_put op of
          None \<Rightarrow> (Ok (wo_request op), s)
        | Some a \<Rightarrow> continue (stampAndMarshal L d ctx (ptr t a) s) (\<lambda>(av, _) s. (Ok (PutReq av), s)))
       (\<lambda>w s. continue (write_requests L d t ctx ops s) (\<lambda>ws s. (Ok (w # ws), s)))"

definition write_call ::
    "('c, 'w) batch_write_builder \<Rightarrow> write_request list \<Rightarrow> ('w st, write_request list) act" where
  "write_call b request s =
     (let table = db_table (wb_db b) in
      continue
        (map_fail (Wrapped ''godynamo: batch write'')
          (api (BatchWriteItem (db_client (wb_db b))) (fmupd table request fmempty) s)) (\<lambda>out s.
        (Ok (slice_at table out), s)))"

definition requests_left :: "write_request list \<Rightarrow> go_err" where
  "requests_left un =
     OtherErr (''godynamo: '' @ nat_string (length un) @ '' write requests still unprocessed after '' @
       nat_string batchMaxRetries @ '' retries'')"

function write_attempts ::
    "'w lib \<Rightarrow> ('c, 'w) batch_write_builder \<Rightarrow> write_request list \<Rightarrow> nat \<Rightarrow> ('w st, unit) act" where
  "write_attempts L b request attempt s =
     (case write_call b request s of
        (Ok unprocessed, s) \<Rightarrow>
          (if unprocessed = [] then (Ok (), s)
           else if batchMaxRetries \<le> attempt then (Fail (requests_left unprocessed), s)
           else write_attempts L b unprocessed (attempt + 1) (sleep_backoff L attempt s))
      | (Fail e, s) \<Rightarrow> (Fail e, s)
      | (Panic m, s) \<Rightarrow> (Panic m, s))"
  by pat_completeness auto
termination
  by (relation "measure (\<lambda>(L, b, request, attempt, s). Suc batchMaxRetries - attempt)") auto

definition BatchWrite_runChunk ::
    "'w lib \<Rightarrow> ('c, 'w) batch_write_builder \<Rightarrow> write_request list \<Rightarrow> ('w st, unit) act" where
  "BatchWrite_runChunk L b writes = write_attempts L b writes 0"

function write_chunks ::
    "'w lib \<Rightarrow> ('c, 'w) batch_write_builder \<Rightarrow> write_request list \<Rightarrow> nat \<Rightarrow> ('w st, unit) act" where
  "write_chunks L b writes start s =
     (if start < length writes
      then
        (case map_fail (Wrapped (''batch write '' @ type_name (wb_type b)))
            (BatchWrite_runChunk L b
              (go_slice start (min (start + batchWriteMaxRequests) (length writes)) writes) s) of
           (Ok _, s) \<Rightarrow> write_chunks L b writes (start + batchWriteMaxRequests) s
         | (Fail e, s) \<Rightarrow> (Fail e, s)
         | (Panic m, s) \<Rightarrow> (Panic m, s))
      else (Ok (), s))"
  by pat_completeness auto
termination
  by (relation "measure (\<lambda>(L, b, writes, start, s). length writes - start)")
    (auto simp: batchWriteMaxRequests_def)

definition BatchWrite_Run ::
    "'w lib \<Rightarrow> ('c, 'w) batch_write_builder \<Rightarrow> 'c \<Rightarrow> ('w st, unit) act" where
  "BatchWrite_Run L b ctx s =
     (case wb_err b of
        Some e \<Rightarrow> (Fail (Wrapped (''batch write '' @ type_name (wb_type b)) e), s)
      | None \<Rightarrow>
          (if wb_ops b = [] then (Ok (), s)
           else continue
             (map_fail (Wrapped (''batch write '' @ type_name (wb_type b)))
               (write_requests L (wb_db b) (wb_type b) ctx (wb_ops b) s))
             (\<lambda>writes s. write_chunks L b writes 0 s)))"

section \<open>The shared loops\<close>

interpretation gr: retrying "get_call L b" "sleep_backoff L" keys_left batchMaxRetries "get_attempts L b"
  for L :: "'w lib" and b :: "('c, 'w) batch_get_builder"
  by unfold_locales
    (subst get_attempts.simps, auto split: prod.split outcome.split simp del: get_attempts.simps)

interpretation gc: chunked "BatchGet_runChunk L b" batchGetMaxKeys
    "Wrapped (''batch get '' @ type_name (gb_type b))" "get_chunks L b"
  for L :: "'w lib" and b :: "('c, 'w) batch_get_builder"
  by unfold_locales
    (subst get_chunks.simps, auto split: prod.split outcome.split simp: batchGetMaxKeys_def simp del: get_chunks.simps)

text \<open>The write loops return no items: the same locales, with empty results.\<close>

definition no_items :: "('s, unit) act \<Rightarrow> ('s, 'y list) act" where
  "no_items f s = (case f s of (r, s) \<Rightarrow> (map_ok (\<lambda>_. []) r, s))"

definition with_acc :: "'y list \<Rightarrow> ('s, unit) act \<Rightarrow> ('s, 'y list) act" where
  "with_acc acc f s = (case f s of (r, s) \<Rightarrow> (map_ok (\<lambda>_. acc) r, s))"

definition write_call' ::
    "('c, 'w) batch_write_builder \<Rightarrow> write_request list \<Rightarrow> ('w st, unit list \<times> write_request list) act" where
  "write_call' b request s = continue (write_call b request s) (\<lambda>un s. (Ok ([], un), s))"

interpretation wr: retrying "write_call' b" "sleep_backoff L" requests_left batchMaxRetries
    "\<lambda>req n acc. with_acc acc (write_attempts L b req n)"
  for L :: "'w lib" and b :: "('c, 'w) batch_write_builder"
  by unfold_locales
    (simp only: with_acc_def, subst write_attempts.simps,
     auto simp: write_call'_def split: prod.split outcome.split simp del: write_attempts.simps)

lemma continue_no_items:
  "continue (map_fail f (no_items g s)) k =
     (case map_fail f (g s) of
        (Ok _, s) \<Rightarrow> k [] s | (Fail e, s) \<Rightarrow> (Fail e, s) | (Panic m, s) \<Rightarrow> (Panic m, s))"
  by (cases "g s"; cases "fst (g s)") (auto simp: no_items_def)

interpretation wc: chunked "\<lambda>c. no_items (BatchWrite_runChunk L b c) :: ('w st, unit list) act"
    batchWriteMaxRequests "Wrapped (''batch write '' @ type_name (wb_type b))"
    "\<lambda>xs start acc. with_acc acc (write_chunks L b xs start)"
  for L :: "'w lib" and b :: "('c, 'w) batch_write_builder"
  by unfold_locales
    (simp only: with_acc_def continue_no_items, subst write_chunks.simps,
     auto simp: batchWriteMaxRequests_def split: prod.split outcome.split simp del: write_chunks.simps)

text \<open>The write builder's calls.\<close>

datatype write_builder_call = CallPut "addr option list" | CallDelete "uuid list"

fun write_builder_step ::
    "'w lib \<Rightarrow> heap \<Rightarrow> write_builder_call \<Rightarrow> ('c, 'w) batch_write_builder \<Rightarrow>
     ('c, 'w) batch_write_builder outcome" where
  "write_builder_step L h (CallPut items) b = Ok (BatchWrite_Put items b)"
| "write_builder_step L h (CallDelete ids) b = BatchWrite_Delete L h ids b"

interpretation wl: error_latch wb_err "write_builder_step L h"
  for L :: "'w lib" and h :: heap
proof unfold_locales
  fix b :: "('c, 'w) batch_write_builder" and op
  assume "wb_err b \<noteq> None"
  then show "write_builder_step L h op b = Ok b"
    by (cases op) (auto simp: BatchWrite_Put_def BatchWrite_Delete_def)
qed

lemma with_acc_Ok: "with_acc acc f s = (Ok zs, s') \<longleftrightarrow> f s = (Ok (), s') \<and> zs = acc"
  by (cases "f s"; cases "fst (f s)") (auto simp: with_acc_def)

lemma with_acc_Fail: "with_acc acc f s = (Fail e, s') \<longleftrightarrow> f s = (Fail e, s')"
  by (cases "f s"; cases "fst (f s)") (auto simp: with_acc_def)

lemma write_requests_length:
  "write_requests L d t ctx ops s = (Ok ws, s') \<Longrightarrow> length ws = length ops"
  by (induction ops arbitrary: ws s s') (auto simp: continue_Ok)

lemma BatchWrite_Run_Ok:
  "wb_err b = None \<Longrightarrow> wb_ops b \<noteq> [] \<Longrightarrow> BatchWrite_Run L b ctx s = (Ok (), s') \<longleftrightarrow>
   (\<exists>ws s1. write_requests L (wb_db b) (wb_type b) ctx (wb_ops b) s = (Ok ws, s1) \<and>
     write_chunks L b ws 0 s1 = (Ok (), s'))"
  by (auto simp: BatchWrite_Run_def continue_Ok simp del: write_chunks.simps)

section \<open>Properties\<close>

text \<open>
  A batched get that succeeds has asked for the key of every queued ID exactly once, in order,
  in chunks of at most 100 keys, one call sequence after the other, and returns everything the chunks
  returned.
\<close>

theorem batch_get_covers_all_ids:
  assumes "BatchGet_Run L b s = (Ok xs, s')" and "gb_ids b \<noteq> []"
  shows "\<exists>keys cs rs. list_all2 (\<lambda>i k. id_key L (mem s) (gb_type b) i = Ok k) (gb_ids b) keys \<and>
    concat cs = keys \<and> list_all (\<lambda>c. c \<noteq> [] \<and> length c \<le> 100) cs \<and>
    chunk_runs (BatchGet_runChunk L b) cs s rs s' \<and> xs = concat rs"
proof -
  obtain keys where keys: "traverse (id_key L (mem s) (gb_type b)) (gb_ids b) = Ok keys"
      "get_chunks L b keys 0 [] s = (Ok xs, s')"
    using assms by (auto simp: BatchGet_Run_def continue_Ok simp del: get_chunks.simps)
  from gc.loop_chunks[OF keys(2)] obtain cs rs where
    "chunks_of 100 keys cs" "chunk_runs (BatchGet_runChunk L b) cs s rs s'" "xs = concat rs"
    by (auto simp: batchGetMaxKeys_def)
  with keys(1) show ?thesis by (auto simp: chunks_of_def traverse_Ok)
qed

text \<open>
  C29: The retries of a get chunk: it succeeds exactly when within six calls (the first and five
  retries) one leaves nothing unprocessed; each retry asks for exactly what the call before left; and
  the items of all calls are returned.
\<close>

theorem get_chunk_retries:
  "BatchGet_runChunk L b keys s = (Ok xs, s') \<longleftrightarrow>
   (\<exists>tr. attempts (get_call L b) (sleep_backoff L) 0 keys s tr [] s' \<and> length tr \<le> 6 \<and>
     xs = concat (map snd tr))"
proof
  assume "BatchGet_runChunk L b keys s = (Ok xs, s')"
  then have "get_attempts L b keys 0 [] s = (Ok xs, s')" by (simp add: BatchGet_runChunk_def del: get_attempts.simps)
  from gr.loop_success[OF this] show "\<exists>tr. attempts (get_call L b) (sleep_backoff L) 0 keys s tr [] s' \<and>
      length tr \<le> 6 \<and> xs = concat (map snd tr)"
    by (auto simp: batchMaxRetries_def)
next
  assume "\<exists>tr. attempts (get_call L b) (sleep_backoff L) 0 keys s tr [] s' \<and> length tr \<le> 6 \<and>
      xs = concat (map snd tr)"
  then obtain tr where tr: "attempts (get_call L b) (sleep_backoff L) 0 keys s tr [] s'" "length tr \<le> 6"
      "xs = concat (map snd tr)" by blast
  from gr.loop_complete[OF tr(1) refl] tr(2,3) show "BatchGet_runChunk L b keys s = (Ok xs, s')"
    by (simp add: BatchGet_runChunk_def batchMaxRetries_def del: get_attempts.simps)
qed

text \<open>
  C30: When the sixth call still leaves something, both batches stop with an error that counts it;
  nothing is retried further.
\<close>

theorem batch_gives_up:
  assumes "length tr = 6" and "un \<noteq> []"
  shows "(attempts (get_call L g) (sleep_backoff L) 0 keys s tr' un' s' \<longrightarrow> length tr' = 6 \<longrightarrow> un' \<noteq> [] \<longrightarrow>
      BatchGet_runChunk L g keys s =
        (Fail (OtherErr (''godynamo: '' @ nat_string (length un') @ '' keys still unprocessed after 5 retries'')), s')) \<and>
    (attempts (write_call' b) (sleep_backoff L) 0 writes s tr un s' \<longrightarrow>
      BatchWrite_runChunk L b writes s =
        (Fail (OtherErr (''godynamo: '' @ nat_string (length un) @
          '' write requests still unprocessed after 5 retries'')), s'))"
proof (intro conjI impI)
  assume "attempts (get_call L g) (sleep_backoff L) 0 keys s tr' un' s'" "length tr' = 6" "un' \<noteq> []"
  from gr.loop_exhausted[OF this(1,3)] this(2)
  show "BatchGet_runChunk L g keys s =
        (Fail (OtherErr (''godynamo: '' @ nat_string (length un') @ '' keys still unprocessed after 5 retries'')), s')"
    by (simp add: BatchGet_runChunk_def batchMaxRetries_def keys_left_def nat_string.simps del: get_attempts.simps)
next
  assume "attempts (write_call' b) (sleep_backoff L) 0 writes s tr un s'"
  from wr.loop_exhausted[OF this assms(2)] assms(1)
  show "BatchWrite_runChunk L b writes s = (Fail (OtherErr (''godynamo: '' @ nat_string (length un) @
          '' write requests still unprocessed after 5 retries'')), s')"
    by (simp add: BatchWrite_runChunk_def batchMaxRetries_def requests_left_def with_acc_Fail nat_string.simps
        del: write_attempts.simps)
qed

text \<open>
  A batched write that succeeds has turned every queued operation, in the order queued, into
  one write request and sent them in chunks of at most 25, all requests being built before the first
  call.
\<close>

theorem batch_write_sends_all:
  assumes "BatchWrite_Run L b ctx s = (Ok (), s')" and "wb_err b = None" and "wb_ops b \<noteq> []"
  shows "\<exists>ws s1 cs rs. write_requests L (wb_db b) (wb_type b) ctx (wb_ops b) s = (Ok ws, s1) \<and>
    length ws = length (wb_ops b) \<and> concat cs = ws \<and> list_all (\<lambda>c. c \<noteq> [] \<and> length c \<le> 25) cs \<and>
    chunk_runs (\<lambda>c. no_items (BatchWrite_runChunk L b c) :: ('w st, unit list) act) cs s1 rs s'"
proof -
  obtain ws s1 where ws: "write_requests L (wb_db b) (wb_type b) ctx (wb_ops b) s = (Ok ws, s1)"
      "write_chunks L b ws 0 s1 = (Ok (), s')"
    using assms(1) BatchWrite_Run_Ok[OF assms(2,3)] by blast
  then have "with_acc [] (write_chunks L b ws 0) s1 = (Ok ([] :: unit list), s')"
    by (simp add: with_acc_Ok del: write_chunks.simps)
  from wc.loop_chunks[OF this] ws(1) write_requests_length[OF ws(1)] show ?thesis
    by (auto simp: chunks_of_def batchWriteMaxRequests_def)
qed

lemma delete_refused:
  assumes "parse_tags t = Ok mt" and "pkFields mt \<noteq> [] \<or> skFields mt \<noteq> []"
  shows "\<exists>e. requiresDefaultKey t op = Fail e \<and> errors_is e ErrNonDefaultKey"
  using assms by (auto simp: requiresDefaultKey_def)

lemma write_builder_err:
  assumes "parse_tags t = Ok mt" and "pkFields mt \<noteq> [] \<or> skFields mt \<noteq> []"
  shows "wl.run_calls L h calls b = Ok b' \<Longrightarrow> wb_type b = t \<Longrightarrow>
    wb_err b = None \<or> errors_is (the (wb_err b)) ErrNonDefaultKey \<Longrightarrow>
    wb_type b' = t \<and> (wb_err b' = None \<or> errors_is (the (wb_err b')) ErrNonDefaultKey) \<and>
    ((wb_err b \<noteq> None \<or> (\<exists>ids. CallDelete ids \<in> set calls)) \<longrightarrow> wb_err b' \<noteq> None)"
proof (induction calls arbitrary: b)
  case Nil
  then show ?case by auto
next
  case (Cons c calls)
  then obtain b1 where b1: "write_builder_step L h c b = Ok b1" "wl.run_calls L h calls b1 = Ok b'" by auto
  have "wb_type b1 = t \<and> (wb_err b1 = None \<or> errors_is (the (wb_err b1)) ErrNonDefaultKey) \<and>
    ((wb_err b \<noteq> None \<or> (\<exists>ids. c = CallDelete ids)) \<longrightarrow> wb_err b1 \<noteq> None)"
  proof (cases c)
    case (CallPut items)
    with b1(1) Cons.prems show ?thesis by (auto simp: BatchWrite_Put_def)
  next
    case (CallDelete ids)
    with b1(1) Cons.prems delete_refused[OF assms, of "''BatchWriteBuilder.Delete''"] show ?thesis
      by (auto simp: BatchWrite_Delete_def split: if_splits)
  qed
  with Cons.IH[OF b1(2)] show ?case by auto
qed

text \<open>
  A delete of a type with a key clause spoils the whole batch: whatever was queued before and
  after it, \<open>Run\<close> returns an error that wraps \<open>ErrNonDefaultKey\<close> and sends nothing.
\<close>

theorem refused_delete_spoils_batch:
  assumes "parse_tags t = Ok mt" and "pkFields mt \<noteq> [] \<or> skFields mt \<noteq> []"
    and "wl.run_calls L h (before @ CallDelete ids # after) (BatchWrite t d) = Ok b"
  shows "\<exists>e. BatchWrite_Run L b ctx s = (Fail e, s) \<and> errors_is e ErrNonDefaultKey"
proof -
  have "wb_err b \<noteq> None \<and> errors_is (the (wb_err b)) ErrNonDefaultKey"
    using write_builder_err[OF assms] by (auto simp: BatchWrite_def)
  then show ?thesis by (auto simp: BatchWrite_Run_def)
qed

text \<open>
  A nil pointer queued with \<open>Put\<close> is not reported: it is sent as a write request that
  neither puts nor deletes.
\<close>

theorem nil_put_sends_empty_request:
  "write_requests L d t ctx (wb_ops (BatchWrite_Put [None] (BatchWrite t d))) s = (Ok [EmptyReq], s) \<and>
   BatchWrite_Run L (BatchWrite_Put [None] (BatchWrite t d)) ctx s =
     write_chunks L (BatchWrite_Put [None] (BatchWrite t d)) [EmptyReq] 0 s"
  by (simp add: BatchWrite_Run_def BatchWrite_Put_def BatchWrite_def del: write_chunks.simps)

text \<open>
  The pauses grow by ten milliseconds per retry, without overflow for any attempt below
  \<open>9 * 10 ^ 11\<close>; the five pauses of a chunk add up to 150 milliseconds.
\<close>

theorem backoff_is_linear:
  assumes "attempt < 9 * 10 ^ 11"
  shows "sint (batchBackoff attempt) = (int attempt + 1) * 10 * 10 ^ 6 \<and>
    sum_list (map (\<lambda>n. sint (batchBackoff n)) [0..<batchMaxRetries]) = 150 * 10 ^ 6"
proof -
  have lin: "sint (batchBackoff n) = (int n + 1) * 10 * 10 ^ 6" if "n < 9 * 10 ^ 11" for n
  proof -
    have "batchBackoff n = word_of_int ((int n + 1) * 10000000)" by (simp add: batchBackoff_def)
    then have "sint (batchBackoff n) = signed_take_bit 63 ((int n + 1) * 10000000)"
      by (simp only: signed_of_int) simp
    also have "\<dots> = (int n + 1) * 10000000"
      by (rule signed_take_bit_int_eq_self) (use that in simp_all)
    finally show ?thesis by simp
  qed
  show ?thesis using lin[OF assms] by (simp add: lin batchMaxRetries_def upt_rec)
qed

section \<open>Witnesses\<close>

definition task_get :: "(unit, sworld) batch_get_builder" where
  "task_get = IDs [5] (BatchGet task_type sample_db)"

definition batch_st :: "nat \<Rightarrow> sworld st" where
  "batch_st n =
     \<lparr>mem = (\<lambda>_. VStr []),
      world = empty_world\<lparr>sw_table := fmupd (''Task#5'', ''Task#5'') (itemKey ''Task#5'' ''Task#5'') fmempty,
        sw_calls := n\<rparr>\<rparr>"

lemma task_zero_key: "id_key sample_lib h task_type 5 = Ok (itemKey ''Task#5'' ''Task#5'')"
proof -
  have "with_model task_type (\<lambda>m. m\<lparr>m_ID := 5\<rparr>) (zero_value task_type) =
      VStruct [val_of_model (zero_model\<lparr>m_ID := 5\<rparr>), VStr [], VStr [], VStr [], VStr []]"
    by (simp add: with_model_def model_at_def task_type_def model_type_def val_of_model_def zero_model_def
        model_of_val_def field_search model_path_def)
  moreover have "value_field task_type
      (VStruct [val_of_model (zero_model\<lparr>m_ID := 5\<rparr>), VStr [], VStr [], VStr [], VStr []]) ''ID'' =
      Some (TUUID, VUUID 5)"
    by (simp add: value_field_def task_fields val_of_model_def)
  ultimately show ?thesis
    by (simp add: id_key_def zeroKeys_def Keys_def key_of_pointer[OF parse_task] pk_names_def sk_names_def
        buildKey_def nat_string.simps)
qed

lemma task_from_key:
  "unmarshal_fresh sample_lib task_type (itemKey a b) = Ok (zero_value task_type)"
proof -
  have "unmarshal_leaves (itemKey a b) (type_leaves task_type) (zero_value task_type) = zero_value task_type"
    by (simp add: itemKey_def type_leaves_def task_type_def model_type_def)
  then show ?thesis
    by (simp add: unmarshal_fresh_def unmarshal_value_def unmarshal_map_into_def parse_task
        extractCompressedFields_def task_notes_attr itemKey_def sample_lib_def)
qed

lemma key_of_itemKey [simp]: "key_of (itemKey a b) = (a, b)"
  by (simp add: key_of_def itemKey_def)

lemma task_get_run:
  "BatchGet_Run sample_lib task_get (batch_st 0) = (Ok [zero_value task_type], batch_st 1)"
  by (simp add: BatchGet_Run_def task_get_def IDs_def BatchGet_def requiresDefaultKey_def parse_task
      task_zero_key batchGetMaxKeys_def BatchGet_runChunk_def get_call_def api_def sample_client_def
      batch_st_def go_slice_def slice_at_def task_from_key map_filter_simps)

theorem batch_get_covers_all_ids_witness:
  "\<exists>keys cs rs. length keys = 1 \<and> concat cs = keys \<and>
    chunk_runs (BatchGet_runChunk sample_lib task_get) cs (batch_st 0) rs (batch_st 1) \<and>
    [zero_value task_type] = concat rs"
proof -
  have "gb_ids task_get \<noteq> []" by (simp add: task_get_def IDs_def BatchGet_def)
  from batch_get_covers_all_ids[OF task_get_run this] obtain keys cs rs where
    k: "list_all2 (\<lambda>i k. id_key sample_lib (mem (batch_st 0)) (gb_type task_get) i = Ok k) (gb_ids task_get) keys"
      "concat cs = keys" "chunk_runs (BatchGet_runChunk sample_lib task_get) cs (batch_st 0) rs (batch_st 1)"
      "[zero_value task_type] = concat rs"
    by blast
  have "length keys = 1" using list_all2_lengthD[OF k(1)] by (simp add: task_get_def IDs_def BatchGet_def)
  with k show ?thesis by blast
qed

definition stuck_write :: "(unit, sworld) batch_write_builder" where
  "stuck_write = BatchWrite order_type
     (sample_db\<lparr>db_client := sample_client\<lparr>BatchWriteItem := \<lambda>r w. (Inr r, w)\<rparr>\<rparr>)"

lemma stuck_call: "write_call' stuck_write reqs s = (Ok ([], reqs), s)"
  by (simp add: write_call'_def write_call_def stuck_write_def BatchWrite_def api_def slice_at_def)

lemma stuck_attempts:
  assumes "reqs \<noteq> []"
  shows "\<exists>s'. attempts (write_call' stuck_write) (sleep_backoff L) n reqs s (replicate (Suc k) (reqs, [])) reqs s'"
proof (induction k arbitrary: n s)
  case 0
  show ?case using attempts.one[where call = "write_call' stuck_write", OF stuck_call[of reqs s]] by auto
next
  case (Suc k)
  obtain s' where "attempts (write_call' stuck_write) (sleep_backoff L) (Suc n) reqs (sleep_backoff L n s)
      (replicate (Suc k) (reqs, [])) reqs s'"
    using Suc by blast
  from attempts.again[where call = "write_call' stuck_write", OF stuck_call assms this] show ?case
    by (auto simp: replicate_Suc)
qed

theorem batch_gives_up_witness:
  "\<exists>s'. BatchWrite_runChunk sample_lib stuck_write [EmptyReq, EmptyReq] (batch_st 0) =
    (Fail (OtherErr ''godynamo: 2 write requests still unprocessed after 5 retries''), s')"
proof -
  obtain s' where "attempts (write_call' stuck_write) (sleep_backoff sample_lib) 0 [EmptyReq, EmptyReq]
      (batch_st 0) (replicate (Suc 5) ([EmptyReq, EmptyReq], [])) [EmptyReq, EmptyReq] s'"
    using stuck_attempts[of "[EmptyReq, EmptyReq]"] by blast
  from batch_gives_up[THEN conjunct2, THEN mp, OF _ _ this] show ?thesis by (auto simp: nat_string.simps)
qed

definition task_deletes :: "(unit, sworld) batch_write_builder" where
  "task_deletes = (BatchWrite task_type sample_db)\<lparr>wb_ops :=
     [\<lparr>wo_put = None, wo_request = DeleteReq (itemKey ''Task#5'' ''Task#5'')\<rparr>]\<rparr>"

theorem batch_write_sends_all_witness:
  "\<exists>ws s1. write_requests sample_lib sample_db task_type () (wb_ops task_deletes) (batch_st 0) = (Ok ws, s1) \<and>
    length ws = length (wb_ops task_deletes)"
proof -
  have run: "BatchWrite_Run sample_lib task_deletes () (batch_st 0) = (Ok (), batch_st 1)"
    by (simp add: BatchWrite_Run_def task_deletes_def BatchWrite_def batchWriteMaxRequests_def
        BatchWrite_runChunk_def write_call_def api_def sample_client_def batch_st_def go_slice_def slice_at_def)
  have b: "wb_db task_deletes = sample_db" "wb_type task_deletes = task_type" "wb_err task_deletes = None"
      "wb_ops task_deletes \<noteq> []"
    by (simp_all add: task_deletes_def BatchWrite_def)
  from batch_write_sends_all[OF run b(3,4)] show ?thesis unfolding b(1,2) by blast
qed

theorem refused_delete_spoils_batch_witness:
  "\<forall>s :: sworld st. \<exists>b e. BatchWrite_Run sample_lib b () s = (Fail e, s) \<and> errors_is e ErrNonDefaultKey \<and>
    wl.run_calls sample_lib (mem s) ([CallPut [Some 0]] @ CallDelete [5] # []) (BatchWrite order_type sample_db) = Ok b"
proof
  fix s :: "sworld st"
  obtain b where b: "wl.run_calls sample_lib (mem s) ([CallPut [Some 0]] @ CallDelete [5] # [])
      (BatchWrite order_type sample_db) = Ok b"
    by (simp add: BatchWrite_def BatchWrite_Put_def BatchWrite_Delete_def requiresDefaultKey_def parse_order)
  from refused_delete_spoils_batch[OF parse_order _ this, of "()" s] b
  show "\<exists>b e. BatchWrite_Run sample_lib b () s = (Fail e, s) \<and> errors_is e ErrNonDefaultKey \<and>
      wl.run_calls sample_lib (mem s) ([CallPut [Some 0]] @ CallDelete [5] # []) (BatchWrite order_type sample_db) = Ok b"
    by auto
qed

theorem backoff_is_linear_witness: "sint (batchBackoff 4) = 50 * 10 ^ 6"
  using backoff_is_linear[of 4] by simp

end
