(* ===== verification/Table_Batch.thy ===== *)
theory Table_Batch
  imports Table_Writes Batch
begin

text \<open>
  The two batches on the documented table: what a batched get returns of it and what a batched
  write makes of it, whatever the service leaves unprocessed between the calls.
\<close>

section \<open>The documented calls\<close>

text \<open>
  A \<open>BatchGetItem\<close> call of at most 100 keys reads some of them, in any order, and reports the others as
  unprocessed. The library asks for no consistent reads: each key is answered with one of the versions that
  a replica still holds, and left out of the reply when this version is no item. The keys of the request all
  have the table's key attributes. \<open>shown versions w k v\<close>: a read of \<open>k\<close> in \<open>w\<close> may see \<open>v\<close>.
\<close>

definition shown :: "('w \<Rightarrow> table_key \<Rightarrow> item option set) \<Rightarrow> 'w \<Rightarrow> item \<Rightarrow> item option \<Rightarrow> bool" where
  "shown versions w key v \<longleftrightarrow> (\<exists>k. primary_key key = Some k \<and> v \<in> versions w k)"

definition batch_get_law ::
    "'w client \<Rightarrow> string \<Rightarrow> ('w \<Rightarrow> table_key \<Rightarrow> item option set) \<Rightarrow> bool" where
  "batch_get_law C tbl versions \<longleftrightarrow>
     (\<forall>request w out w'. length request \<le> 100 \<longrightarrow> (\<forall>k\<in>set request. primary_key k \<noteq> None) \<longrightarrow>
        BatchGetItem C (fmupd tbl request fmempty) w = (Inr out, w') \<longrightarrow>
        (\<forall>k. versions w' k \<subseteq> versions w k) \<and>
        (\<exists>got vs. mset request = mset got + mset (slice_at tbl (bg_unprocessed out)) \<and>
          list_all2 (shown versions w) got vs \<and>
          mset (slice_at tbl (bg_responses out)) = mset (List.map_filter id vs)))"

text \<open>While time passes, replicas catch up: old versions may disappear.\<close>

definition settling :: "'w lib \<Rightarrow> ('w \<Rightarrow> table_key \<Rightarrow> item option set) \<Rightarrow> bool" where
  "settling L versions \<longleftrightarrow> (\<forall>d w k. versions (lib_sleep L d w) k \<subseteq> versions w k)"






section \<open>Reading\<close>

definition reads ::
    "'w lib \<Rightarrow> gtype \<Rightarrow> ('w \<Rightarrow> table_key \<Rightarrow> item option set) \<Rightarrow> 'w \<Rightarrow> item list \<Rightarrow> gval list \<Rightarrow> bool" where
  "reads L t versions w keys xs \<longleftrightarrow>
     (\<exists>vs avs. list_all2 (shown versions w) keys vs \<and> mset avs = mset (List.map_filter id vs) \<and>
        list_all2 (\<lambda>av x. unmarshal_fresh L t av = Ok x) avs xs)"

lemma map_filter_append: "List.map_filter f (xs @ ys) = List.map_filter f xs @ List.map_filter f ys"
  by (simp add: List.map_filter_def)

lemma map_filter_id_mset: "mset vs = mset vs' \<Longrightarrow> mset (List.map_filter id vs) = mset (List.map_filter id vs')"
proof -
  have "mset (List.map_filter id vs) = image_mset the (filter_mset (\<lambda>v. v \<noteq> None) (mset vs))" for vs :: "'a option list"
    by (simp add: List.map_filter_def mset_filter)
  then show "mset vs = mset vs' \<Longrightarrow> ?thesis" by simp
qed

lemma reads_mset:
  assumes "reads L t versions w ks xs" and "mset ks' = mset ks"
  shows "reads L t versions w ks' xs"
proof -
  obtain vs avs where r: "list_all2 (shown versions w) ks vs" "mset avs = mset (List.map_filter id vs)"
      "list_all2 (\<lambda>av x. unmarshal_fresh L t av = Ok x) avs xs"
    using assms(1) by (auto simp: reads_def)
  obtain vs' where "list_all2 (shown versions w) ks' vs'" "mset vs' = mset vs"
    using list_all2_reorder_left_invariance[OF r(1) assms(2)] by blast
  with r(2,3) map_filter_id_mset[of vs' vs] show ?thesis
    unfolding reads_def by (intro exI[of _ vs'] exI[of _ avs]) simp
qed

lemma reads_append:
  assumes "reads L t versions w ks xs" and "reads L t versions w ks' xs'"
  shows "reads L t versions w (ks @ ks') (xs @ xs')"
proof -
  obtain vs avs vs' avs' where
    "list_all2 (shown versions w) ks vs" "mset avs = mset (List.map_filter id vs)"
      "list_all2 (\<lambda>av x. unmarshal_fresh L t av = Ok x) avs xs"
    and "list_all2 (shown versions w) ks' vs'" "mset avs' = mset (List.map_filter id vs')"
      "list_all2 (\<lambda>av x. unmarshal_fresh L t av = Ok x) avs' xs'"
    using assms unfolding reads_def by blast
  then show ?thesis
    unfolding reads_def by (intro exI[of _ "vs @ vs'"] exI[of _ "avs @ avs'"]) (simp add: list_all2_appendI map_filter_append)
qed

lemma reads_Nil: "reads L t versions w [] []"
  by (simp add: reads_def map_filter_simps)

lemma reads_earlier:
  assumes "reads L t versions w' ks xs" and "\<And>k. versions w' k \<subseteq> versions w k"
  shows "reads L t versions w ks xs"
proof -
  have "shown versions w key v" if "shown versions w' key v" for key v
    using that assms(2) unfolding shown_def by blast
  with assms(1) show ?thesis unfolding reads_def by (metis list_all2_mono)
qed

lemma get_call_reads:
  assumes "batch_get_law (db_client (gb_db b)) (db_table (gb_db b)) versions"
    and "get_call L b request s = (Ok (xs, un), s1)"
    and "length request \<le> 100" and "\<forall>k\<in>set request. primary_key k \<noteq> None"
  shows "(\<forall>k. versions (world s1) k \<subseteq> versions (world s) k) \<and>
    (\<exists>got. mset request = mset got + mset un \<and> reads L (gb_type b) versions (world s) got xs)"
proof -
  obtain out w where call: "BatchGetItem (db_client (gb_db b)) (fmupd (db_table (gb_db b)) request fmempty) (world s) = (Inr out, w)"
    and out: "traverse (unmarshal_fresh L (gb_type b)) (slice_at (db_table (gb_db b)) (bg_responses out)) = Ok xs"
      "un = slice_at (db_table (gb_db b)) (bg_unprocessed out)" "s1 = s\<lparr>world := w\<rparr>"
    using assms(2) by (auto simp: get_call_def Let_def continue_Ok api_Ok)
  from assms(1)[unfolded batch_get_law_def, rule_format, OF _ _ call] assms(3,4) out
  show ?thesis by (auto simp: reads_def traverse_Ok)
qed

lemma attempts_read:
  assumes "batch_get_law (db_client (gb_db b)) (db_table (gb_db b)) versions" and "settling L versions"
  shows "attempts (get_call L b) (sleep_backoff L) n request s tr un s' \<Longrightarrow> length request \<le> 100 \<Longrightarrow>
    \<forall>k\<in>set request. primary_key k \<noteq> None \<Longrightarrow> (\<forall>k. versions (world s') k \<subseteq> versions (world s) k) \<and>
    (\<exists>got. mset request = mset got + mset un \<and> reads L (gb_type b) versions (world s) got (concat (map snd tr)))"
proof (induction rule: attempts.induct)
  case (one request s ys un s1 n)
  with get_call_reads[OF assms(1)] show ?case by fastforce
next
  case (again request s ys un s1 n tr un' s')
  from get_call_reads[OF assms(1) again.hyps(1) again.prems] obtain got where
    g: "\<forall>k. versions (world s1) k \<subseteq> versions (world s) k" "mset request = mset got + mset un"
      "reads L (gb_type b) versions (world s) got ys" by blast
  have pause: "versions (world (sleep_backoff L n s1)) k \<subseteq> versions (world s) k" for k
  proof -
    have "versions (world (sleep_backoff L n s1)) k \<subseteq> versions (world s1) k"
      using assms(2)[unfolded settling_def, rule_format] by (simp add: sleep_backoff_def)
    then show ?thesis using g(1) by blast
  qed
  have "set un \<subseteq> set request" using g(2) by (metis mset_subset_eq_add_right set_mset_mono set_mset_mset)
  then have keys: "\<forall>k\<in>set un. primary_key k \<noteq> None" using again.prems by blast
  have "length un \<le> 100" using g(2)[THEN arg_cong[where f = size]] again.prems(1) by simp
  from again.IH[OF this keys] obtain got' where
    g': "\<forall>k. versions (world s') k \<subseteq> versions (world (sleep_backoff L n s1)) k" "mset un = mset got' + mset un'"
      "reads L (gb_type b) versions (world (sleep_backoff L n s1)) got' (concat (map snd tr))" by blast
  have "versions (world s') k \<subseteq> versions (world s) k" for k using g'(1) pause by blast
  moreover have "reads L (gb_type b) versions (world s) (got @ got') (ys @ concat (map snd tr))"
    by (rule reads_append[OF g(3) reads_earlier[OF g'(3) pause]])
  ultimately show ?case using g(2) g'(2) by (intro conjI exI[of _ "got @ got'"]) simp_all
qed

lemma chunks_read:
  assumes "batch_get_law (db_client (gb_db b)) (db_table (gb_db b)) versions" and "settling L versions"
  shows "chunk_runs (BatchGet_runChunk L b) cs s rs s' \<Longrightarrow>
    list_all (\<lambda>c. length c \<le> 100) cs \<Longrightarrow> \<forall>k\<in>set (concat cs). primary_key k \<noteq> None \<Longrightarrow>
    reads L (gb_type b) versions (world s) (concat cs) (concat rs)"
proof (induction rule: chunk_runs.induct)
  case (finish s)
  show ?case by (simp add: reads_Nil)
next
  case (chunk c s ys s1 cs rs s')
  obtain tr where tr: "attempts (get_call L b) (sleep_backoff L) 0 c s tr [] s1" "ys = concat (map snd tr)"
    using chunk.hyps(1) gr.loop_success[of L b c 0 "[]" s ys s1]
    by (auto simp: BatchGet_runChunk_def simp del: get_attempts.simps)
  from attempts_read[OF assms tr(1)] chunk.prems obtain got where
    g: "\<And>k. versions (world s1) k \<subseteq> versions (world s) k" "mset c = mset got"
      "reads L (gb_type b) versions (world s) got ys"
    using tr(2) by auto
  have "reads L (gb_type b) versions (world s1) (concat cs) (concat rs)" using chunk.IH chunk.prems by simp
  from reads_append[OF reads_mset[OF g(3) g(2)] reads_earlier[OF this g(1)]] show ?case by simp
qed

text \<open>
  C11: A batched get that succeeds has read every queued ID once: each is answered with a version of its
  key that the service may show (the reads are eventually consistent; when the replicas have caught up, the
  current item), and what is returned are these items, each unmarshaled, in no particular order; IDs read
  as missing are left out. All of this from a service that takes at most 100 keys a call and may leave any
  of them unprocessed.
\<close>

theorem batch_get_returns_stored:
  assumes "default_keyed (gb_type b)"
    and "batch_get_law (db_client (gb_db b)) (db_table (gb_db b)) versions" and "settling L versions"
    and "BatchGet_Run L b s = (Ok xs, s')"
  shows "\<exists>vs avs.
    list_all2 (\<lambda>i v. v \<in> versions (world s) (id_table_key L (gb_type b) i)) (gb_ids b) vs \<and>
    mset avs = mset (List.map_filter id vs) \<and>
    list_all2 (\<lambda>av x. unmarshal_fresh L (gb_type b) av = Ok x) avs xs"
proof (cases "gb_ids b = []")
  case True
  with assms(4) requiresDefaultKey_default[OF assms(1)] show ?thesis
    by (simp add: BatchGet_Run_def map_filter_simps)
next
  case False
  obtain keys where keys: "traverse (id_key L (mem s) (gb_type b)) (gb_ids b) = Ok keys"
      "get_chunks L b keys 0 [] s = (Ok xs, s')"
    using assms(4) False by (auto simp: BatchGet_Run_def continue_Ok simp del: get_chunks.simps)
  from gc.loop_chunks[OF keys(2)] obtain cs rs where
    cs: "concat cs = keys" "chunk_runs (BatchGet_runChunk L b) cs s rs s'" "xs = concat rs"
      "list_all (\<lambda>c. length c \<le> 100) cs"
    by (auto simp: chunks_of_def batchGetMaxKeys_def list_all_iff)
  have key: "primary_key k = Some (id_table_key L (gb_type b) i)" if "id_key L (mem s) (gb_type b) i = Ok k" for i k
    using that zeroKeys_default[OF assms(1), of L "mem s" i] by (auto simp: id_key_def)
  have all: "list_all2 (\<lambda>i k. primary_key k = Some (id_table_key L (gb_type b) i)) (gb_ids b) keys"
    using keys(1) unfolding traverse_Ok by (rule list_all2_mono) (rule key)
  then have "\<forall>k\<in>set keys. primary_key k \<noteq> None" by (induction rule: list_all2_induct) auto
  with chunks_read[OF assms(2,3) cs(2,4)] cs(1,3)
  have "reads L (gb_type b) versions (world s) keys xs" by simp
  then obtain vs avs where r: "list_all2 (shown versions (world s)) keys vs" "mset avs = mset (List.map_filter id vs)"
      "list_all2 (\<lambda>av x. unmarshal_fresh L (gb_type b) av = Ok x) avs xs"
    by (auto simp: reads_def)
  have "list_all2 (\<lambda>i v. v \<in> versions (world s) (id_table_key L (gb_type b) i)) (gb_ids b) vs"
    using all r(1) by (rule list_all2_trans[rotated]) (auto simp: shown_def)
  with r(2,3) show ?thesis by blast
qed

section \<open>Writing\<close>






text \<open>
  The request that a queued operation is turned into: the queued one, or the put of the entity's item.
\<close>

definition request_of ::
    "'w lib \<Rightarrow> ('c, 'w) db \<Rightarrow> (go_int \<Rightarrow> attr_val) \<Rightarrow> gtype \<Rightarrow> batch_write_op \<Rightarrow> heap \<Rightarrow> heap \<Rightarrow> write_request \<Rightarrow> bool" where
  "request_of L d num t op h h' r \<longleftrightarrow>
     (case wo_put op of
        None \<Rightarrow> r = wo_request op
      | Some a \<Rightarrow> \<exists>av. r = PutReq av \<and> (db_gsi1PKAttr d \<notin> {''PK'', ''SK'', ''Version''} \<longrightarrow>
          (\<forall>m. entity h t a m \<longrightarrow> (\<exists>k. item_of L num t a m h' k av))))"

definition request_step ::
    "'w lib \<Rightarrow> ('c, 'w) db \<Rightarrow> gtype \<Rightarrow> 'c \<Rightarrow> batch_write_op \<Rightarrow> ('w st, write_request) act" where
  "request_step L d t ctx op s =
     (case wo_put op of
        None \<Rightarrow> (Ok (wo_request op), s)
      | Some a \<Rightarrow> continue (stampAndMarshal L d ctx (ptr t a) s) (\<lambda>(av, _) s. (Ok (PutReq av), s)))"


interpretation rs: object_steps "request_step L d t ctx" wo_put "request_of L d num t"
proof unfold_locales
  fix op :: batch_write_op and s a
  assume "wo_put op \<noteq> Some a"
  then show "mem (snd (request_step L d t ctx op s)) a = mem s a"
  proof (cases "wo_put op")
    case (Some b)
    obtain r s1 where st: "stampAndMarshal L d ctx (ptr t b) s = (r, s1)" by fastforce
    have "mem s1 a = mem s a"
      using stampAndMarshal_frame[of "ptr t b" a L d ctx s] st Some \<open>wo_put op \<noteq> Some a\<close> by auto
    with Some st show ?thesis by (cases r) (auto simp: request_step_def)
  qed (simp add: request_step_def)
next
  fix op s r s'
  assume "request_step L d t ctx op s = (Ok r, s')"
  then show "request_of L d num t op (mem s) (mem s') r"
    using stamped_item_of[of s t _ _ d L ctx _ _ s' num]
    by (auto simp: request_step_def request_of_def continue_Ok split: option.splits)
next
  fix op h h1 r h' h1'
  assume "request_of L d num t op h h1 r" and "\<And>a. wo_put op = Some a \<Longrightarrow> h a = h' a \<and> h1 a = h1' a"
  then show "request_of L d num t op h' h1' r"
    using item_of_local[of L num t "the (wo_put op)" _ h1 _ _ h1']
    by (cases "wo_put op") (simp add: request_of_def, simp add: request_of_def entity_def, blast)
qed


section \<open>Witnesses\<close>

lemma sample_batch_get_law: "batch_get_law sample_client ''t'' sample_versions"
proof -
  have "list_all2 (shown sample_versions w) request (map (\<lambda>k. fmlookup (sw_table w) (key_of k)) request)"
    if "\<forall>k\<in>set request. primary_key k \<noteq> None" for request w
    using that primary_key_key_of
    by (auto simp: list_all2_map2 list_all2_same shown_def sample_versions_def sample_view_def)
  moreover have "List.map_filter id (map (\<lambda>k. fmlookup (sw_table w) (key_of k)) request) =
      List.map_filter (\<lambda>k. fmlookup (sw_table w) (key_of k)) request" for request :: "item list" and w
    by (simp add: List.map_filter_def filter_map comp_def)
  ultimately have answer: "\<exists>vs. list_all2 (shown sample_versions w) request vs \<and>
      mset (List.map_filter (\<lambda>k. fmlookup (sw_table w) (key_of k)) request) = mset (List.map_filter id vs)"
    if "\<forall>k\<in>set request. primary_key k \<noteq> None" for request w
    using that by metis
  have same: "sample_versions (w\<lparr>sw_calls := n\<rparr>) k \<subseteq> sample_versions w k" for w n k
    by (simp add: sample_versions_def sample_view_def)
  show ?thesis
    unfolding batch_get_law_def
  proof (intro allI impI conjI)
    fix request w out w' k
    assume keys: "\<forall>k\<in>set request. primary_key k \<noteq> None"
      and call: "BatchGetItem sample_client (fmupd ''t'' request fmempty) w = (Inr out, w')"
    show "sample_versions w' k \<subseteq> sample_versions w k"
      using same[of "Suc (sw_calls w)" w k] call by (simp only: sample_client_def client.simps prod.inject)
    have "slice_at ''t'' (bg_unprocessed out) = []"
      "slice_at ''t'' (bg_responses out) = List.map_filter (\<lambda>k. fmlookup (sw_table w) (key_of k)) request"
      using call by (auto simp: sample_client_def slice_at_def)
    with answer[OF keys] show "\<exists>got vs. mset request = mset got + mset (slice_at ''t'' (bg_unprocessed out)) \<and>
        list_all2 (shown sample_versions w) got vs \<and>
        mset (slice_at ''t'' (bg_responses out)) = mset (List.map_filter id vs)"
      by (intro exI[of _ request]) simp
  qed
qed

lemma sample_settling: "settling sample_lib sample_versions"
  by (simp add: settling_def sample_lib_def sample_versions_def sample_view_def)


theorem batch_get_returns_stored_witness:
  "\<exists>av x. sample_view (world (batch_st 0)) (''Task#5'', ''Task#5'') = Some av \<and>
    unmarshal_fresh sample_lib task_type av = Ok x \<and> BatchGet_Run sample_lib task_get (batch_st 0) = (Ok [x], batch_st 1)"
proof -
  have f: "gb_type task_get = task_type" "gb_db task_get = sample_db" "gb_ids task_get = [5]"
    by (simp_all add: task_get_def IDs_def BatchGet_def)
  have k: "sample_view (world (batch_st 0)) (id_table_key sample_lib task_type 5) = Some (itemKey ''Task#5'' ''Task#5'')"
    by (simp add: id_key_5 sample_view_def batch_st_def)
  from batch_get_returns_stored[of task_get sample_versions sample_lib, OF _ _ sample_settling task_get_run]
    task_default_keyed sample_batch_get_law
  obtain vs avs where r: "list_all2 (\<lambda>i v. v \<in> sample_versions (world (batch_st 0)) (id_table_key sample_lib task_type i)) [5] vs"
    "mset avs = mset (List.map_filter id vs)"
    "list_all2 (\<lambda>av x. unmarshal_fresh sample_lib task_type av = Ok x) avs [zero_value task_type]"
    by (auto simp: f)
  from r(1) have "vs = [Some (itemKey ''Task#5'' ''Task#5'')]"
    using k by (auto simp: list_all2_Cons1 sample_versions_def)
  with r(2,3) task_get_run k show ?thesis by (auto simp: id_key_5 map_filter_simps)
qed












end
