(* ===== verification/Transact.thy ===== *)
theory Transact
  imports Chunks
begin

text \<open>
  \<open>transact.go\<close>: transactional reads and writes of up to 100 entities of any types, each in
  one call. Queued values are \<open>any\<close>s; \<open>Put(nil)\<close> stores the nil interface, which is also
  how the code marks an entry that is not a put.
\<close>

definition transactMaxItems :: nat where "transactMaxItems = 100"

definition conditionalCheckFailedCode :: string where
  "conditionalCheckFailedCode = ''ConditionalCheckFailed''"

definition too_many :: "string \<Rightarrow> string \<Rightarrow> string \<Rightarrow> nat \<Rightarrow> go_err" where
  "too_many op noun call n =
     OtherErr (''godynamo: '' @ op @ '': '' @ nat_string n @ '' '' @ noun @ '' queued, exceeds the '' @
       nat_string transactMaxItems @ call @ '' limit (no auto-chunking '' @ em_dash @
       '' would break atomicity)'')"

section \<open>Transactional get\<close>

record ('c, 'w) transact_get_builder =
  tg_db :: "('c, 'w) db"
  tg_dsts :: "go_any list"

definition TransactGet :: "('c, 'w) db \<Rightarrow> ('c, 'w) transact_get_builder" where
  "TransactGet d = \<lparr>tg_db = d, tg_dsts = []\<rparr>"

definition TransactGet_Get :: "go_any \<Rightarrow> ('c, 'w) transact_get_builder \<Rightarrow> ('c, 'w) transact_get_builder" where
  "TransactGet_Get dst b = b\<lparr>tg_dsts := tg_dsts b @ [dst]\<rparr>"

definition any_key :: "'w lib \<Rightarrow> heap \<Rightarrow> go_any \<Rightarrow> item outcome" where
  "any_key L h x = and_then (PK L h x) (\<lambda>pk. map_ok (\<lambda>sk. itemKey pk sk) (SK L h x))"

text \<open>The loop over the responses, in place; it stops when there are fewer of them.\<close>

fun unmarshal_dsts :: "'w lib \<Rightarrow> nat \<Rightarrow> go_any list \<Rightarrow> item list \<Rightarrow> (heap, unit) act" where
  "unmarshal_dsts L i (dst # dsts) (it # its) h =
     (if it = fmempty then unmarshal_dsts L (Suc i) dsts its h
      else continue
        (map_fail (Wrapped (''godynamo: transact get: unmarshal item '' @ nat_string i))
          (unmarshalItemInto L it dst h))
        (\<lambda>_ h. unmarshal_dsts L (Suc i) dsts its h))"
| "unmarshal_dsts L i dsts its h = (Ok (), h)"

definition TransactGet_Run :: "'w lib \<Rightarrow> ('c, 'w) transact_get_builder \<Rightarrow> ('w st, unit) act" where
  "TransactGet_Run L b s =
     (if tg_dsts b = [] then (Ok (), s)
      else if transactMaxItems < length (tg_dsts b)
      then (Fail (too_many ''transact get'' ''items'' ''-item TransactGetItems'' (length (tg_dsts b))), s)
      else
        continue (traverse (any_key L (mem s)) (tg_dsts b), s) (\<lambda>keys s.
        continue
          (map_fail (Wrapped ''godynamo: transact get'')
            (api (TransactGetItems (db_client (tg_db b)))
              (map (\<lambda>k. \<lparr>ki_table = db_table (tg_db b), ki_key = k\<rparr>) keys) s)) (\<lambda>responses s.
          in_heap (unmarshal_dsts L 0 (tg_dsts b) responses) s)))"

section \<open>Transactional write\<close>

record transact_write_op =
  to_put :: go_any
  to_entry :: transact_write_item

record ('c, 'w) transact_write_builder =
  tw_db :: "('c, 'w) db"
  tw_ops :: "transact_write_op list"
  tw_err :: "go_err option"

definition TransactWrite :: "('c, 'w) db \<Rightarrow> ('c, 'w) transact_write_builder" where
  "TransactWrite d = \<lparr>tw_db = d, tw_ops = [], tw_err = None\<rparr>"

definition TransactWrite_Put ::
    "go_any \<Rightarrow> ('c, 'w) transact_write_builder \<Rightarrow> ('c, 'w) transact_write_builder" where
  "TransactWrite_Put x b =
     (if tw_err b \<noteq> None then b
      else b\<lparr>tw_ops := tw_ops b @ [\<lparr>to_put = x, to_entry = TxEmpty\<rparr>]\<rparr>)"

definition TransactWrite_Delete ::
    "'w lib \<Rightarrow> heap \<Rightarrow> go_any \<Rightarrow> ('c, 'w) transact_write_builder \<Rightarrow> ('c, 'w) transact_write_builder outcome" where
  "TransactWrite_Delete L h x b =
     (if tw_err b \<noteq> None then Ok b
      else map_ok (\<lambda>k. b\<lparr>tw_ops := tw_ops b @ [\<lparr>to_put = None, to_entry = TxDelete (db_table (tw_db b)) k\<rparr>]\<rparr>)
        (any_key L h x))"

definition ConditionCheck ::
    "'w lib \<Rightarrow> heap \<Rightarrow> go_any \<Rightarrow> go_int \<Rightarrow> ('c, 'w) transact_write_builder \<Rightarrow>
     ('c, 'w) transact_write_builder outcome" where
  "ConditionCheck L h x expectedVersion b =
     (if tw_err b \<noteq> None then Ok b
      else
        (case build_expr L (no_parts\<lparr>ex_condition := Some (version_equals expectedVersion)\<rparr>) of
           Fail e \<Rightarrow> Ok (b\<lparr>tw_err := Some (Wrapped ''godynamo: building condition check'' e)\<rparr>)
         | Panic m \<Rightarrow> Panic m
         | Ok ex \<Rightarrow>
             map_ok (\<lambda>k. b\<lparr>tw_ops := tw_ops b @
                 [\<lparr>to_put = None, to_entry = TxCheck (db_table (tw_db b)) k (ex_condition ex)\<rparr>]\<rparr>)
               (any_key L h x)))"

text \<open>One queued entry, and the loop over them.\<close>

definition write_entry ::
    "'w lib \<Rightarrow> ('c, 'w) db \<Rightarrow> 'c \<Rightarrow> transact_write_op \<Rightarrow> ('w st, transact_write_item) act" where
  "write_entry L d ctx op s =
     (if to_put op = None then (Ok (to_entry op), s)
      else
        continue (map_fail (Wrapped ''transact write'') (stampAndMarshal L d ctx (to_put op) s)) (\<lambda>(av, cond) s.
        continue
          (wrap_fail ''godynamo: transact write: building put condition''
            (build_expr L (no_parts\<lparr>ex_condition := Some cond\<rparr>)), s) (\<lambda>ex s.
          (Ok (TxPut (db_table d) av (ex_condition ex)), s))))"

fun write_entries ::
    "'w lib \<Rightarrow> ('c, 'w) db \<Rightarrow> 'c \<Rightarrow> transact_write_op list \<Rightarrow> ('w st, transact_write_item list) act" where
  "write_entries L d ctx [] s = (Ok [], s)"
| "write_entries L d ctx (op # ops) s =
     continue (write_entry L d ctx op s) (\<lambda>e s.
     continue (write_entries L d ctx ops s) (\<lambda>es s. (Ok (e # es), s)))"

definition cancellationReasonCodes :: "string option list \<Rightarrow> string list" where
  "cancellationReasonCodes reasons = map (\<lambda>r. case r of Some c \<Rightarrow> c | None \<Rightarrow> ''None'') reasons"

text \<open>\<open>%v\<close> of a string slice.\<close>

definition codes_text :: "string list \<Rightarrow> string" where
  "codes_text codes = ''['' @ join_with '' '' codes @ '']''"

definition translateTransactWriteErr :: "go_err \<Rightarrow> go_err" where
  "translateTransactWriteErr err =
     (case as_tx_canceled err of
        Some reasons \<Rightarrow>
          (let codes = codes_text (cancellationReasonCodes reasons) in
           if \<exists>r\<in>set reasons. r = Some conditionalCheckFailedCode
           then Wrapped (''godynamo: transact write (reasons='' @ codes @ '')'') ErrOptimisticLock
           else Wrapped (''godynamo: transact write: transaction canceled (reasons='' @ codes @ '')'') err)
      | None \<Rightarrow> Wrapped ''godynamo: transact write'' err)"

definition TransactWrite_Run ::
    "'w lib \<Rightarrow> ('c, 'w) transact_write_builder \<Rightarrow> 'c \<Rightarrow> ('w st, unit) act" where
  "TransactWrite_Run L b ctx s =
     (case tw_err b of
        Some e \<Rightarrow> (Fail (Wrapped ''transact write'' e), s)
      | None \<Rightarrow>
          (if tw_ops b = [] then (Ok (), s)
           else if transactMaxItems < length (tw_ops b)
           then (Fail (too_many ''transact write'' ''entries'' ''-entry TransactWriteItems'' (length (tw_ops b))), s)
           else
             continue (write_entries L (tw_db b) ctx (tw_ops b) s) (\<lambda>items s.
               map_fail translateTransactWriteErr
                 (api (TransactWriteItems (db_client (tw_db b))) items s))))"

section \<open>Lemmas\<close>

datatype transact_call = CallTxPut go_any | CallTxDelete go_any | CallTxCheck go_any go_int

fun transact_step ::
    "'w lib \<Rightarrow> heap \<Rightarrow> transact_call \<Rightarrow> ('c, 'w) transact_write_builder \<Rightarrow>
     ('c, 'w) transact_write_builder outcome" where
  "transact_step L h (CallTxPut x) b = Ok (TransactWrite_Put x b)"
| "transact_step L h (CallTxDelete x) b = TransactWrite_Delete L h x b"
| "transact_step L h (CallTxCheck x v) b = ConditionCheck L h x v b"

interpretation tl: error_latch tw_err "transact_step L h"
  for L :: "'w lib" and h :: heap
proof unfold_locales
  fix b :: "('c, 'w) transact_write_builder" and op
  assume "tw_err b \<noteq> None"
  then show "transact_step L h op b = Ok b"
    by (cases op) (auto simp: TransactWrite_Put_def TransactWrite_Delete_def ConditionCheck_def)
qed

text \<open>How a destination changes: reply \<open>j\<close> was unmarshaled into it, or the service has no item for it.\<close>

definition read_into :: "'w lib \<Rightarrow> item list \<Rightarrow> nat \<Rightarrow> gtype \<Rightarrow> gval \<Rightarrow> gval \<Rightarrow> bool" where
  "read_into L its j t v v' \<longleftrightarrow>
     (if j < length its \<and> its ! j \<noteq> fmempty then unmarshal_value L (its ! j) t v = (Ok (), v') else v' = v)"

lemma unmarshal_dsts_spec:
  "unmarshal_dsts L i (map (\<lambda>(t, a). ptr t a) tas) its h = (Ok (), h') \<Longrightarrow> distinct (map snd tas) \<Longrightarrow>
   (\<forall>a. a \<notin> set (map snd tas) \<longrightarrow> h' a = h a) \<and>
   (\<forall>j<length tas. read_into L its j (fst (tas ! j)) (h (snd (tas ! j))) (h' (snd (tas ! j))))"
proof (induction tas arbitrary: i its h)
  case Nil
  then show ?case by simp
next
  case (Cons ta tas)
  obtain t a where ta: "ta = (t, a)" by fastforce
  show ?case
  proof (cases its)
    case Nil
    with Cons.prems show ?thesis by (auto simp: ta read_into_def)
  next
    case (Cons it rest)
    obtain v where v: "read_into L its 0 t (h a) v"
        and rest: "unmarshal_dsts L (Suc i) (map (\<lambda>(t, a). ptr t a) tas) rest (h(a := v)) = (Ok (), h')"
      using Cons.prems(1) Cons
      by (auto simp: ta unmarshalItemInto_def continue_Ok read_into_def split: if_splits prod.splits)
    note IH = Cons.IH[OF rest]
    have d: "distinct (map snd tas)" "a \<notin> set (map snd tas)" using Cons.prems(2) ta by auto
    have frame: "h' b = (h(a := v)) b" if "b \<notin> set (map snd tas)" for b
      using IH[OF d(1)] that by blast
    have each: "read_into L rest j (fst (tas ! j)) ((h(a := v)) (snd (tas ! j))) (h' (snd (tas ! j)))"
      if "j < length tas" for j
      using IH[OF d(1)] that by blast
    have other: "snd (tas ! j) \<noteq> a" if "j < length tas" for j
      using d(2) that by (metis length_map nth_map nth_mem)
    show ?thesis
    proof (intro conjI allI impI)
      fix b
      assume "b \<notin> set (map snd (ta # tas))"
      then show "h' b = h b" using frame[of b] by (auto simp: ta)
    next
      fix j
      assume j: "j < length (ta # tas)"
      show "read_into L its j (fst ((ta # tas) ! j)) (h (snd ((ta # tas) ! j))) (h' (snd ((ta # tas) ! j)))"
      proof (cases j)
        case 0
        then show ?thesis using frame[OF d(2)] v by (simp add: ta)
      next
        case (Suc k)
        with j each[of k] other[of k] show ?thesis by (simp add: ta Cons read_into_def)
      qed
    qed
  qed
qed

lemma write_entries_Ok:
  "write_entries L d ctx ops s = (Ok es, s') \<Longrightarrow>
   list_all2 (\<lambda>op e. if to_put op = None then e = to_entry op
     else \<exists>av cond s0 s1. stampAndMarshal L d ctx (to_put op) s0 = (Ok (av, cond), s1) \<and>
       e = TxPut (db_table d) av (Some cond)) ops es"
proof (induction ops arbitrary: es s s')
  case Nil
  then show ?case by simp
next
  case (Cons op ops)
  then obtain e es' s1 where e: "write_entry L d ctx op s = (Ok e, s1)" "es = e # es'"
      and "write_entries L d ctx ops s1 = (Ok es', s')"
    by (auto simp: continue_Ok)
  from Cons.IH[OF this(3)] e show ?case
    by (auto simp: write_entry_def continue_Ok build_expr_def split: if_splits option.splits)
qed

section \<open>Properties\<close>

text \<open>
  C20: A transaction is never split: with more than 100 entries both transactions return an error
  without calling the service or changing anything.
\<close>

theorem transactions_are_not_split:
  "(length (tg_dsts g) > 100 \<longrightarrow> (\<exists>e. TransactGet_Run L g s = (Fail e, s))) \<and>
   (length (tw_ops b) > 100 \<longrightarrow> (\<exists>e. TransactWrite_Run L b ctx s = (Fail e, s)))"
  by (auto simp: TransactGet_Run_def TransactWrite_Run_def transactMaxItems_def split: option.splits)

text \<open>
  C19: A transactional get that succeeds makes one call, with the keys of the destinations in order,
  and unmarshals each item found into its destination; a destination without an item, and every other
  object, stays as it was.
\<close>

theorem transact_get_in_place:
  assumes "TransactGet_Run L b s = (Ok (), s')" and "tg_dsts b = map (\<lambda>(t, a). ptr t a) tas"
    and "distinct (map snd tas)" and "tas \<noteq> []"
  shows "\<exists>keys its w. list_all2 (\<lambda>(t, a) k. any_key L (mem s) (ptr t a) = Ok k) tas keys \<and>
    TransactGetItems (db_client (tg_db b))
      (map (\<lambda>k. \<lparr>ki_table = db_table (tg_db b), ki_key = k\<rparr>) keys) (world s) = (Inr its, w) \<and>
    world s' = w \<and>
    (\<forall>j<length tas. read_into L its j (fst (tas ! j)) (mem s (snd (tas ! j))) (mem s' (snd (tas ! j)))) \<and>
    (\<forall>a. a \<notin> snd ` set tas \<longrightarrow> mem s' a = mem s a)"
proof -
  obtain keys its w h' where keys: "traverse (any_key L (mem s)) (tg_dsts b) = Ok keys"
      and call: "TransactGetItems (db_client (tg_db b))
        (map (\<lambda>k. \<lparr>ki_table = db_table (tg_db b), ki_key = k\<rparr>) keys) (world s) = (Inr its, w)"
      and un: "unmarshal_dsts L 0 (tg_dsts b) its (mem s) = (Ok (), h')"
      and s': "s' = s\<lparr>world := w, mem := h'\<rparr>"
    using assms(1,2,4)
    by (auto simp: TransactGet_Run_def continue_Ok api_Ok in_heap_iff split: if_splits)
  have "list_all2 (\<lambda>(t, a) k. any_key L (mem s) (ptr t a) = Ok k) tas keys"
    using keys by (auto simp: assms(2) traverse_Ok list_all2_conv_all_nth split: prod.splits)
  moreover have "\<forall>j<length tas. read_into L its j (fst (tas ! j)) (mem s (snd (tas ! j))) (mem s' (snd (tas ! j)))"
      and "\<forall>a. a \<notin> snd ` set tas \<longrightarrow> mem s' a = mem s a" and "world s' = w"
    using unmarshal_dsts_spec[OF un[unfolded assms(2)] assms(3)] s' by auto
  ultimately show ?thesis using call by blast
qed

text \<open>
  C21: A canceled transaction becomes an optimistic-lock error exactly when one of its reasons is a
  failed condition; any other error stays in the chain as it is.
\<close>

theorem transact_error_translation:
  assumes "\<not> errors_is e ErrOptimisticLock"
  shows "(errors_is (translateTransactWriteErr e) ErrOptimisticLock \<longleftrightarrow>
      (\<exists>reasons. root_err e = TxCanceled reasons \<and> Some ''ConditionalCheckFailed'' \<in> set reasons)) \<and>
    (root_err (translateTransactWriteErr e) = root_err e \<or>
      errors_is (translateTransactWriteErr e) ErrOptimisticLock)"
proof (cases "as_tx_canceled e")
  case None
  then have "root_err e \<noteq> TxCanceled rs" for rs by (metis as_tx_canceled_root option.distinct(1))
  with None assms show ?thesis by (simp add: translateTransactWriteErr_def)
next
  case (Some reasons)
  then have "root_err e = TxCanceled reasons" by (simp add: as_tx_canceled_root)
  with Some assms show ?thesis
    by (auto simp: translateTransactWriteErr_def conditionalCheckFailedCode_def Let_def)
qed

text \<open>
  C18: A transactional write that succeeds makes one call, with one entry per queued operation, in
  the order queued, each built before the next (the state is threaded through): the entry built when it was queued, or a put of the stamped entity with the
  condition of its branch attached.
\<close>

theorem transact_write_entries:
  fixes s' :: "'w st"
  assumes "TransactWrite_Run L b ctx s = (Ok (), s')" and "tw_ops b \<noteq> []"
  shows "\<exists>items (s1 :: 'w st). length (tw_ops b) \<le> 100 \<and>
    write_entries L (tw_db b) ctx (tw_ops b) s = (Ok items, s1) \<and>
    TransactWriteItems (db_client (tw_db b)) items (world s1) = (Inr (), world s') \<and> mem s' = mem s1 \<and>
    list_all2 (\<lambda>op e. if to_put op = None then e = to_entry op
      else \<exists>av cond s0 s1. stampAndMarshal L (tw_db b) ctx (to_put op) s0 = (Ok (av, cond), s1) \<and>
        e = TxPut (db_table (tw_db b)) av (Some cond)) (tw_ops b) items"
proof -
  have "tw_err b = None" and len: "length (tw_ops b) \<le> 100"
    using assms by (auto simp: TransactWrite_Run_def transactMaxItems_def split: option.splits if_splits)
  with assms obtain items s1 where "write_entries L (tw_db b) ctx (tw_ops b) s = (Ok items, s1)"
      and "api (TransactWriteItems (db_client (tw_db b))) items s1 = (Ok (), s')"
    by (auto simp: TransactWrite_Run_def continue_Ok split: if_splits)
  moreover from this obtain w where
    "TransactWriteItems (db_client (tw_db b)) items (world s1) = (Inr (), w)" "s' = s1\<lparr>world := w\<rparr>"
    by (auto simp: api_Ok)
  ultimately have "TransactWriteItems (db_client (tw_db b)) items (world s1) = (Inr (), world s') \<and> mem s' = mem s1"
    by simp
  with len write_entries_Ok[OF \<open>write_entries L (tw_db b) ctx (tw_ops b) s = (Ok items, s1)\<close>]
    \<open>write_entries L (tw_db b) ctx (tw_ops b) s = (Ok items, s1)\<close>
  have "length (tw_ops b) \<le> 100 \<and>
      write_entries L (tw_db b) ctx (tw_ops b) s = (Ok items, s1) \<and>
      TransactWriteItems (db_client (tw_db b)) items (world s1) = (Inr (), world s') \<and> mem s' = mem s1 \<and>
      list_all2 (\<lambda>op e. if to_put op = None then e = to_entry op
        else \<exists>av cond s0 s1. stampAndMarshal L (tw_db b) ctx (to_put op) s0 = (Ok (av, cond), s1) \<and>
          e = TxPut (db_table (tw_db b)) av (Some cond)) (tw_ops b) items"
    by (intro conjI) simp_all
  then show ?thesis by - (rule exI, rule exI)
qed

text \<open>
  A condition check that cannot be built spoils the transaction: whatever is queued after it,
  \<open>Run\<close> reports its error and sends nothing.
\<close>

theorem bad_condition_check_spoils:
  assumes "lib_build_error L (no_parts\<lparr>ex_condition := Some (version_equals v)\<rparr>) = Some msg"
    and "tl.run_calls L h (map CallTxPut xs @ CallTxCheck x v # after) (TransactWrite d) = Ok b"
  shows "TransactWrite_Run L b ctx s =
    (Fail (Wrapped ''transact write'' (Wrapped ''godynamo: building condition check'' (OtherErr msg))), s)"
proof -
  have puts: "\<exists>b1. tl.run_calls L h (map CallTxPut xs) b0 = Ok b1 \<and> tw_err b1 = None"
    if "tw_err b0 = None" for b0
    using that by (induction xs arbitrary: b0) (auto simp: TransactWrite_Put_def)
  have "tw_err (TransactWrite d) = None" by (simp add: TransactWrite_def)
  then obtain b1 where b1: "tl.run_calls L h (map CallTxPut xs) (TransactWrite d) = Ok b1" "tw_err b1 = None"
    using puts by blast
  let ?b2 = "b1\<lparr>tw_err := Some (Wrapped ''godynamo: building condition check'' (OtherErr msg))\<rparr>"
  have "and_then (tl.run_calls L h (map CallTxPut xs) (TransactWrite d)) (transact_step L h (CallTxCheck x v)) = Ok ?b2"
    by (simp add: b1 ConditionCheck_def build_expr_def assms(1))
  from tl.first_error_stays[OF this, of after] assms(2) have "b = ?b2" by simp
  then show ?thesis by (simp add: TransactWrite_Run_def)
qed

text \<open>
  \<open>Put(nil)\<close> is not reported: the transaction is sent with an entry that asks for nothing.
\<close>

theorem nil_transact_put:
  "TransactWrite_Run L (TransactWrite_Put None (TransactWrite d)) ctx s =
     map_fail translateTransactWriteErr (api (TransactWriteItems (db_client d)) [TxEmpty] s)"
  by (simp add: TransactWrite_Run_def TransactWrite_Put_def TransactWrite_def write_entry_def transactMaxItems_def)

section \<open>Witnesses\<close>

theorem transactions_are_not_split_witness:
  "\<forall>s :: sworld st. \<exists>e. TransactGet_Run sample_lib
     \<lparr>tg_db = sample_db, tg_dsts = replicate 101 (ptr task_type 0)\<rparr> s = (Fail e, s)"
  using transactions_are_not_split[of "\<lparr>tg_db = sample_db, tg_dsts = replicate 101 (ptr task_type 0)\<rparr>" sample_lib,
      THEN conjunct1] by simp

definition task_tx_get :: "(unit, sworld) transact_get_builder" where
  "task_tx_get = TransactGet_Get (ptr task_type 0) (TransactGet sample_db)"

definition tx_st :: "sworld st" where
  "tx_st = \<lparr>mem = (\<lambda>_. task_value saved_model ''x''), world = empty_world\<rparr>"

lemma task_tx_get_run: "TransactGet_Run sample_lib task_tx_get tx_st = (Ok (), tx_st)"
  by (simp add: TransactGet_Run_def task_tx_get_def TransactGet_Get_def TransactGet_def transactMaxItems_def
      tx_st_def any_key_def task_keys[of _ _ saved_model "''x''"] api_def sample_client_def in_heap_def
      empty_world_def)

theorem transact_get_in_place_witness:
  "\<exists>its. length its = 1 \<and> TransactGetItems sample_client [\<lparr>ki_table = ''t'', ki_key = itemKey ''Task#5'' ''Task#5''\<rparr>] (world tx_st) =
      (Inr its, world tx_st) \<and>
    read_into sample_lib its 0 task_type (mem tx_st 0) (mem tx_st 0)"
proof -
  have f: "tg_dsts task_tx_get = map (\<lambda>(t, a). ptr t a) [(task_type, 0)]" "tg_db task_tx_get = sample_db"
    by (simp_all add: task_tx_get_def TransactGet_Get_def TransactGet_def)
  have "any_key sample_lib (mem tx_st) (ptr task_type 0) = Ok (itemKey ''Task#5'' ''Task#5'')"
    by (simp add: any_key_def tx_st_def task_keys[of _ _ saved_model "''x''"] nat_string.simps)
  with transact_get_in_place[OF task_tx_get_run f(1)] f(2) show ?thesis
    by (auto simp: sample_client_def list_all2_Cons1)
qed

theorem transact_error_translation_witness:
  "errors_is (translateTransactWriteErr
     (Wrapped ''operation error DynamoDB'' (TxCanceled [None, Some ''ConditionalCheckFailed'']))) ErrOptimisticLock"
  using transact_error_translation[of
      "Wrapped ''operation error DynamoDB'' (TxCanceled [None, Some ''ConditionalCheckFailed''])"] by simp

definition task_tx_write :: "(unit, sworld) transact_write_builder" where
  "task_tx_write = TransactWrite_Put (ptr task_type 0) (TransactWrite sample_db)"

theorem transact_write_entries_witness:
  "\<exists>items. list_all2 (\<lambda>op e. \<exists>av cond. e = TxPut ''t'' av (Some cond)) (tw_ops task_tx_write) items"
proof -
  have ops: "tw_ops task_tx_write = [\<lparr>to_put = ptr task_type 0, to_entry = TxEmpty\<rparr>]"
      "tw_db task_tx_write = sample_db"
    by (simp_all add: task_tx_write_def TransactWrite_Put_def TransactWrite_def)
  obtain s' where "TransactWrite_Run sample_lib task_tx_write () tx_st = (Ok (), s')"
    by (simp add: TransactWrite_Run_def task_tx_write_def TransactWrite_Put_def TransactWrite_def
        transactMaxItems_def write_entry_def task_update[of _ _ saved_model "''x''"] tx_st_def Let_def
        build_expr_def no_parts_def api_def sample_client_def)
  from transact_write_entries[OF this] show ?thesis
    by (auto simp: ops list_all2_Cons1)
qed

theorem bad_condition_check_spoils_witness:
  "\<forall>s :: sworld st. \<exists>b. TransactWrite_Run (sample_lib\<lparr>lib_build_error := (\<lambda>ps. Some ''unset'')\<rparr>) b () s =
     (Fail (Wrapped ''transact write'' (Wrapped ''godynamo: building condition check'' (OtherErr ''unset''))), s) \<and>
     tl.run_calls (sample_lib\<lparr>lib_build_error := (\<lambda>ps. Some ''unset'')\<rparr>) (mem s)
       (map CallTxPut [None] @ CallTxCheck (ptr task_type 0) 3 # [CallTxPut None]) (TransactWrite sample_db) = Ok b"
proof
  fix s :: "sworld st"
  let ?L = "sample_lib\<lparr>lib_build_error := (\<lambda>ps. Some ''unset'')\<rparr>"
  obtain b where b: "tl.run_calls ?L (mem s)
       (map CallTxPut [None] @ CallTxCheck (ptr task_type 0) 3 # [CallTxPut None]) (TransactWrite sample_db) = Ok b"
    by (simp add: TransactWrite_def TransactWrite_Put_def ConditionCheck_def build_expr_def)
  from bad_condition_check_spoils[OF _ b, of "''unset''" "()" s] b
  show "\<exists>b. TransactWrite_Run ?L b () s =
     (Fail (Wrapped ''transact write'' (Wrapped ''godynamo: building condition check'' (OtherErr ''unset''))), s) \<and>
     tl.run_calls ?L (mem s)
       (map CallTxPut [None] @ CallTxCheck (ptr task_type 0) 3 # [CallTxPut None]) (TransactWrite sample_db) = Ok b"
    by auto
qed

end
