(* ===== verification/Table_Transact.thy ===== *)
theory Table_Transact
  imports Table_Writes Transact
begin

text \<open>
  Transactions on the documented table: a write applies all entries or none, a stale version or a failed
  check stops the whole transaction, and a read is a snapshot.
\<close>

section \<open>The documented calls\<close>

text \<open>
  \<open>TransactWriteItems\<close>, for at most 100 entries, tests the conditions of all entries on the table before it and applies
  either all entries or none.
\<close>

fun entry_holds ::
    "(condition \<Rightarrow> item option \<Rightarrow> bool) \<Rightarrow> (table_key \<Rightarrow> item option) \<Rightarrow> transact_write_item \<Rightarrow> bool" where
  "entry_holds holds tab (TxPut tbl av (Some c)) =
     (case primary_key av of None \<Rightarrow> True | Some k \<Rightarrow> holds c (tab k))"
| "entry_holds holds tab (TxCheck tbl key (Some c)) =
     (case primary_key key of None \<Rightarrow> True | Some k \<Rightarrow> holds c (tab k))"
| "entry_holds holds tab e = True"

fun apply_entry :: "transact_write_item \<Rightarrow> (table_key \<Rightarrow> item option) \<Rightarrow> table_key \<Rightarrow> item option" where
  "apply_entry (TxPut tbl av c) tab = (case primary_key av of None \<Rightarrow> tab | Some k \<Rightarrow> tab(k := Some av))"
| "apply_entry (TxDelete tbl key) tab = (case primary_key key of None \<Rightarrow> tab | Some k \<Rightarrow> tab(k := None))"
| "apply_entry e tab = tab"

definition transact_law ::
    "'w client \<Rightarrow> ('w \<Rightarrow> table_key \<Rightarrow> item option) \<Rightarrow> (condition \<Rightarrow> item option \<Rightarrow> bool) \<Rightarrow> bool" where
  "transact_law C view holds \<longleftrightarrow>
     (\<forall>es w. length es \<le> 100 \<longrightarrow> (case TransactWriteItems C es w of
        (Inr _, w') \<Rightarrow> (\<forall>e\<in>set es. entry_holds holds (view w) e) \<and> view w' = fold apply_entry es (view w)
      | (Inl e, w') \<Rightarrow> (\<exists>e\<in>set es. \<not> entry_holds holds (view w) e) \<longrightarrow> view w' = view w))"

text \<open>
  Two entries for one item are an error of the whole call, checks included.
\<close>

fun entry_key :: "transact_write_item \<Rightarrow> table_key option" where
  "entry_key (TxPut tbl av c) = primary_key av"
| "entry_key (TxDelete tbl key) = primary_key key"
| "entry_key (TxCheck tbl key c) = primary_key key"
| "entry_key TxEmpty = None"

definition one_per_item :: "'w client \<Rightarrow> bool" where
  "one_per_item C \<longleftrightarrow> (\<forall>es w w'. TransactWriteItems C es w = (Inr (), w') \<longrightarrow> separate_by entry_key es)"

fun entry_target :: "transact_write_item \<Rightarrow> table_key option" where
  "entry_target (TxCheck tbl key c) = None"
| "entry_target e = entry_key e"

fun entry_result :: "transact_write_item \<Rightarrow> item option" where
  "entry_result (TxPut tbl av c) = Some av"
| "entry_result e = None"

text \<open>
  \<open>TransactGetItems\<close>, for at most 100 keys, answers them in order, all from the same state of the
  table; the answer for a key without an item is empty.
\<close>

definition transact_get_law :: "'w client \<Rightarrow> ('w \<Rightarrow> table_key \<Rightarrow> item option) \<Rightarrow> bool" where
  "transact_get_law C view \<longleftrightarrow>
     (\<forall>ks w its w'. length ks \<le> 100 \<longrightarrow> (\<forall>k\<in>set ks. primary_key (ki_key k) \<noteq> None) \<longrightarrow>
        TransactGetItems C ks w = (Inr its, w') \<longrightarrow> view w' = view w \<and> its = map (\<lambda>k.
          case Option.bind (primary_key (ki_key k)) (view w) of None \<Rightarrow> fmempty | Some av \<Rightarrow> av) ks)"

section \<open>Lemmas\<close>

lemma transact_Ok:
  assumes "transact_law C view holds" and "TransactWriteItems C es w = (Inr (), w')" and "length es \<le> 100"
  shows "\<forall>e\<in>set es. entry_holds holds (view w) e" "view w' = fold apply_entry es (view w)"
  using assms(1)[unfolded transact_law_def, rule_format, of es w] assms(2,3) by simp_all

lemma transact_refused:
  assumes "transact_law C view holds" and "e \<in> set es" and "\<not> entry_holds holds (view w) e"
    and "length es \<le> 100"
  shows "\<exists>err w'. TransactWriteItems C es w = (Inl err, w') \<and> view w' = view w"
  using assms(1)[unfolded transact_law_def, rule_format, of es w] assms(2-4)
  by (auto split: prod.splits sum.splits)

lemma write_entry_world:
  assumes "quiet L d view"
  shows "view (world (snd (write_entry L d ctx op s))) = view (world s)"
proof (cases "to_put op = None")
  case False
  obtain r s1 where st: "stampAndMarshal L d ctx (to_put op) s = (r, s1)" by fastforce
  have "view (world s1) = view (world s)" using stampAndMarshal_world[OF assms, of ctx "to_put op" s] st by simp
  with False st show ?thesis
    by (cases r) (auto simp: write_entry_def build_expr_def split: option.split)
qed (simp add: write_entry_def)

lemma write_entries_world:
  assumes "quiet L d view"
  shows "view (world (snd (write_entries L d ctx ops s))) = view (world s)"
proof (induction ops arbitrary: s)
  case (Cons op ops)
  obtain r s1 where e: "write_entry L d ctx op s = (r, s1)" by fastforce
  obtain r' s2 where es: "write_entries L d ctx ops s1 = (r', s2)" by fastforce
  show ?case
    using Cons[of s1] write_entry_world[OF assms, of ctx op s] e es
    by (cases r; cases r') auto
qed simp

text \<open>An entity is not touched by the entries for other objects.\<close>

lemma write_entry_frame:
  assumes "\<And>t. to_put op \<noteq> ptr t a"
  shows "mem (snd (write_entry L d ctx op s)) a = mem s a"
proof (cases "to_put op = None")
  case False
  obtain r s1 where st: "stampAndMarshal L d ctx (to_put op) s = (r, s1)" by fastforce
  have "mem s1 a = mem s a" using stampAndMarshal_frame[OF assms, of L d ctx s] st by simp
  with False st show ?thesis
    by (cases r) (auto simp: write_entry_def build_expr_def split: option.split)
qed (simp add: write_entry_def)

lemma write_entries_frame:
  "\<forall>op\<in>set ops. \<forall>t. to_put op \<noteq> ptr t a \<Longrightarrow> mem (snd (write_entries L d ctx ops s)) a = mem s a"
proof (induction ops arbitrary: s)
  case (Cons op ops)
  obtain r s1 where e: "write_entry L d ctx op s = (r, s1)" by fastforce
  obtain r' s2 where es: "write_entries L d ctx ops s1 = (r', s2)" by fastforce
  show ?case
    using Cons.IH[of s1] Cons.prems write_entry_frame[of op a L d ctx s] e es
    by (cases r; cases r') auto
qed simp

lemma write_entries_append:
  "write_entries L d ctx (xs @ ys) s = (Ok es, s') \<longleftrightarrow>
   (\<exists>as bs s1. write_entries L d ctx xs s = (Ok as, s1) \<and> write_entries L d ctx ys s1 = (Ok bs, s') \<and> es = as @ bs)"
proof (induction xs arbitrary: es s)
  case (Cons x xs)
  show ?case by (auto simp: continue_Ok Cons)
qed simp

text \<open>One bad entry stops the whole transaction.\<close>

lemma bad_entry_aborts:
  assumes "transact_law (db_client (tw_db b)) view holds" and "quiet L (tw_db b) view"
    and "TransactWrite_Run L b ctx s = (r, s')" and "tw_ops b \<noteq> []"
    and "\<And>es s1. write_entries L (tw_db b) ctx (tw_ops b) s = (Ok es, s1) \<Longrightarrow>
      \<exists>e\<in>set es. \<not> entry_holds holds (view (world s)) e"
  shows "r \<noteq> Ok () \<and> view (world s') = view (world s)"
proof (cases "tw_err b = None \<and> length (tw_ops b) \<le> transactMaxItems")
  case True
  obtain r1 s1 where we: "write_entries L (tw_db b) ctx (tw_ops b) s = (r1, s1)" by fastforce
  have w1: "view (world s1) = view (world s)" using write_entries_world[OF assms(2), of ctx "tw_ops b" s] we by simp
  have run: "TransactWrite_Run L b ctx s = continue (r1, s1) (\<lambda>items s.
      map_fail translateTransactWriteErr (api (TransactWriteItems (db_client (tw_db b))) items s))"
    using True assms(4) we by (simp add: TransactWrite_Run_def)
  show ?thesis
  proof (cases r1)
    case (Ok es)
    have "length es \<le> 100"
      using True we Ok list_all2_lengthD[OF write_entries_Ok, of L "tw_db b" ctx "tw_ops b" s es s1]
      by (simp add: transactMaxItems_def)
    moreover obtain e where "e \<in> set es" "\<not> entry_holds holds (view (world s1)) e"
      using Ok assms(5) we w1 by auto
    ultimately obtain err w where
      "TransactWriteItems (db_client (tw_db b)) es (world s1) = (Inl err, w)" "view w = view (world s1)"
      using transact_refused[OF assms(1)] by blast
    with run Ok assms(3) w1 show ?thesis by (auto simp: api_def)
  qed (use run assms(3) w1 in auto)
qed (use assms(3,4) in \<open>auto simp: TransactWrite_Run_def split: option.splits\<close>)

text \<open>What becomes of the entries, one by one.\<close>

interpretation te: keyed_writes apply_entry entry_target entry_result
proof unfold_locales
  fix e tab
  show "apply_entry e tab = (case entry_target e of None \<Rightarrow> tab | Some k \<Rightarrow> tab(k := entry_result e))"
    by (cases e) (auto split: option.splits)
qed

lemma separate_targets: "separate_by entry_key es \<Longrightarrow> separate_by entry_target es"
  by (rule separate_by_restrict) (auto elim: entry_target.elims)

lemma checked_unchanged:
  assumes "separate_by entry_key es" and "TxCheck tbl key c \<in> set es" and "primary_key key = Some k"
  shows "fold apply_entry es tab k = tab k"
proof (rule te.fold_other)
  have "entry_target e \<noteq> Some k" if "e \<in> set es" for e
  proof
    assume target: "entry_target e = Some k"
    then have "entry_key e = Some k" by (cases e) auto
    with separate_by_unique[OF assms(1) that assms(2), of k] assms(3) target show False by simp
  qed
  then show "\<forall>e\<in>set es. entry_target e \<noteq> Some k" by blast
qed

text \<open>The object that an operation puts, and the entry made of it.\<close>

definition put_addr :: "transact_write_op \<Rightarrow> addr option" where
  "put_addr op = (case to_put op of Some (TPtr t, VPtr a) \<Rightarrow> a | _ \<Rightarrow> None)"

lemma put_addr_iff: "put_addr op = Some a \<longleftrightarrow> (\<exists>t. to_put op = ptr t a)"
  by (auto simp: put_addr_def split: option.splits prod.splits gtype.splits gval.splits)

definition entry_of ::
    "'w lib \<Rightarrow> ('c, 'w) db \<Rightarrow> (go_int \<Rightarrow> attr_val) \<Rightarrow> transact_write_op \<Rightarrow> heap \<Rightarrow> heap \<Rightarrow> transact_write_item \<Rightarrow> bool" where
  "entry_of L d num op h h' e \<longleftrightarrow>
     (if to_put op = None then e = to_entry op
      else db_gsi1PKAttr d \<notin> {''PK'', ''SK'', ''Version''} \<longrightarrow>
        (\<forall>t a m. to_put op = ptr t a \<longrightarrow> entity h t a m \<longrightarrow>
          (\<exists>k av. e = TxPut (db_table d) av (Some (put_condition m)) \<and> item_of L num t a m h' k av)))"

lemma write_entries_each: "write_entries L d ctx ops s = each (write_entry L d ctx) ops s"
  by (induction ops arbitrary: s) simp_all

interpretation we: object_steps "write_entry L d ctx" put_addr "entry_of L d num"
proof unfold_locales
  fix op :: transact_write_op and s a
  assume "put_addr op \<noteq> Some a"
  then show "mem (snd (write_entry L d ctx op s)) a = mem s a"
    by (intro write_entry_frame) (simp add: put_addr_iff)
next
  fix op s r s'
  assume step: "write_entry L d ctx op s = (Ok r, s')"
  show "entry_of L d num op (mem s) (mem s') r"
  proof (cases "to_put op = None")
    case False
    then obtain av cond where "stampAndMarshal L d ctx (to_put op) s = (Ok (av, cond), s')"
        "r = TxPut (db_table d) av (Some cond)"
      using step by (auto simp: write_entry_def continue_Ok build_expr_def split: option.splits)
    with stamped_item_of[of s _ _ _ d L ctx av cond s' num] False show ?thesis
      by (auto simp: entry_of_def)
  qed (use step in \<open>simp add: write_entry_def entry_of_def\<close>)
next
  fix op h h1 r h' h1'
  assume made: "entry_of L d num op h h1 r" and same: "\<And>a. put_addr op = Some a \<Longrightarrow> h a = h' a \<and> h1 a = h1' a"
  show "entry_of L d num op h' h1' r"
  proof (cases "to_put op = None")
    case True
    with made show ?thesis by (simp add: entry_of_def)
  next
    case False
    show ?thesis
      unfolding entry_of_def if_not_P[OF False]
    proof (intro impI allI)
      fix t a m
      assume op: "db_gsi1PKAttr d \<notin> {''PK'', ''SK'', ''Version''}" "to_put op = ptr t a" and "entity h' t a m"
      moreover have heap: "h a = h' a" "h1 a = h1' a" using same[of a] op(2) put_addr_iff by blast+
      ultimately have "entity h t a m" by (simp add: entity_def)
      then obtain k av where "r = TxPut (db_table d) av (Some (put_condition m))" "item_of L num t a m h1 k av"
        using made op unfolding entry_of_def by auto
      with item_of_local heap(2) show "\<exists>k av. r = TxPut (db_table d) av (Some (put_condition m)) \<and> item_of L num t a m h1' k av"
        by blast
    qed
  qed
qed

text \<open>When a put may replace what is stored.\<close>

definition may_replace :: "(go_int \<Rightarrow> attr_val) \<Rightarrow> model \<Rightarrow> item option \<Rightarrow> bool" where
  "may_replace num m it \<longleftrightarrow>
     (if m_CreatedAt m = 0 then \<forall>i. it = Some i \<longrightarrow> fmlookup i ''PK'' = None
      else \<exists>i. it = Some i \<and> fmlookup i ''Version'' = Some (num (m_Version m)))"

lemma holds_put_condition: "condition_law num holds \<Longrightarrow> holds (put_condition m) it \<longleftrightarrow> may_replace num m it"
  by (simp add: condition_law_def put_condition_def may_replace_def)

text \<open>What a queued delete or check leaves, and the key that an operation writes.\<close>

fun entry_done ::
    "(condition \<Rightarrow> item option \<Rightarrow> bool) \<Rightarrow> (table_key \<Rightarrow> item option) \<Rightarrow> (table_key \<Rightarrow> item option) \<Rightarrow>
     transact_write_item \<Rightarrow> bool" where
  "entry_done holds tab tab' (TxDelete tbl key) =
     (case primary_key key of None \<Rightarrow> True | Some k \<Rightarrow> tab' k = None)"
| "entry_done holds tab tab' (TxCheck tbl key (Some c)) =
     (case primary_key key of None \<Rightarrow> True | Some k \<Rightarrow> holds c (tab k) \<and> tab' k = tab k)"
| "entry_done holds tab tab' e = True"

definition written_key :: "'w lib \<Rightarrow> heap \<Rightarrow> transact_write_op \<Rightarrow> table_key option" where
  "written_key L h op =
     (if to_put op = None then entry_target (to_entry op)
      else case Keys L h (to_put op) of Ok k \<Rightarrow> Some k | _ \<Rightarrow> None)"

lemma entry_done_fold:
  assumes "separate_by entry_key es" and "e \<in> set es" and "entry_holds holds tab e"
  shows "entry_done holds tab (fold apply_entry es tab) e"
proof (cases "(holds, tab, fold apply_entry es tab, e)" rule: entry_done.cases)
  case (1 holds' tab1 tab2 tbl key)
  with te.fold_at[OF separate_targets[OF assms(1)] assms(2)] show ?thesis by (auto split: option.split)
next
  case (2 holds' tab1 tab2 tbl key c)
  with checked_unchanged[OF assms(1), of tbl key "Some c"] assms(2,3) show ?thesis by (auto split: option.splits)
qed auto

lemma put_entry_fold:
  assumes "separate_by entry_key es" and "TxPut tbl av (Some (put_condition m)) \<in> set es" and "primary_key av = Some k"
    and "entry_holds holds tab (TxPut tbl av (Some (put_condition m)))" and "condition_law num holds"
  shows "fold apply_entry es tab k = Some av \<and> may_replace num m (tab k)"
  using te.fold_at[OF separate_targets[OF assms(1)] assms(2), of k tab] assms(3-5) holds_put_condition[of num holds m "tab k"]
  by simp

text \<open>The entries of a transaction that succeeds.\<close>

lemma successful_entries:
  fixes s' :: "'w st"
  assumes "transact_law (db_client (tw_db b)) view holds" and "one_per_item (db_client (tw_db b))"
    and "quiet L (tw_db b) view" and "distinct (List.map_filter put_addr (tw_ops b))"
    and "TransactWrite_Run L b ctx s = (Ok (), s')"
  shows "\<exists>es. separate_by entry_key es \<and> (\<forall>e\<in>set es. entry_holds holds (view (world s)) e) \<and>
    view (world s') = fold apply_entry es (view (world s)) \<and>
    list_all2 (\<lambda>op. entry_of L (tw_db b) num op (mem s) (mem s')) (tw_ops b) es"
proof (cases "tw_ops b = []")
  case True
  with assms(5) show ?thesis
    by (intro exI[of _ "[]"]) (auto simp: TransactWrite_Run_def split: option.splits)
next
  case False
  let ?ops = "tw_ops b" and ?d = "tw_db b"
  have "tw_err b = None" using assms(5) by (auto simp: TransactWrite_Run_def split: option.splits)
  then obtain es s1 w where es: "write_entries L ?d ctx ?ops s = (Ok es, s1)"
      and call: "TransactWriteItems (db_client ?d) es (world s1) = (Inr (), w)" and s': "s' = s1\<lparr>world := w\<rparr>"
      and few: "length ?ops \<le> 100"
    using assms(5) False by (auto simp: TransactWrite_Run_def transactMaxItems_def continue_Ok api_Ok split: if_splits)
  have "length es \<le> 100" using list_all2_lengthD[OF write_entries_Ok[OF es]] few by simp
  moreover have "view (world s1) = view (world s)" using write_entries_world[OF assms(3), of ctx ?ops s] es by simp
  moreover have "separate_by entry_key es" using assms(2) call by (auto simp: one_per_item_def)
  moreover have "list_all2 (\<lambda>op. entry_of L ?d num op (mem s) (mem s')) ?ops es"
    using we.each_made[OF assms(4) es[unfolded write_entries_each]] s' by simp
  ultimately show ?thesis using transact_Ok[OF assms(1) call] s' by (intro exI[of _ es]) simp
qed

section \<open>Properties\<close>

text \<open>
  C13: A transactional write is all or nothing: if it succeeds, every queued operation has taken effect.
  The table holds the item of every put entity (of any type, each queued once) under its keys, with the
  version the entity carries now: 1 for a new one, whose key was free, else one more than before, where the
  table had the version it was loaded with. The items of the queued deletes are gone, the conditions of the
  checks held and their items are as before, and so are the items under all keys that no operation writes.
\<close>

theorem transaction_applies_all:
  fixes s' :: "'w st"
  assumes "transact_law (db_client (tw_db b)) view holds" and "one_per_item (db_client (tw_db b))"
    and "condition_law num holds" and "quiet L (tw_db b) view"
    and "db_gsi1PKAttr (tw_db b) \<notin> {''PK'', ''SK'', ''Version''}"
    and "\<forall>op\<in>set (tw_ops b). to_put op = None \<or> (\<exists>t a m. to_put op = ptr t a \<and> entity (mem s) t a m)"
    and "distinct (List.map_filter put_addr (tw_ops b))"
    and "TransactWrite_Run L b ctx s = (Ok (), s')"
  shows "(\<forall>op\<in>set (tw_ops b). \<forall>t a m. to_put op = ptr t a \<longrightarrow> entity (mem s) t a m \<longrightarrow>
      (\<exists>k av. item_of L num t a m (mem s') k av \<and> view (world s') k = Some av \<and>
        may_replace num m (view (world s) k))) \<and>
    (\<forall>op\<in>set (tw_ops b). to_put op = None \<longrightarrow>
      entry_done holds (view (world s)) (view (world s')) (to_entry op)) \<and>
    (\<forall>k. (\<forall>op\<in>set (tw_ops b). written_key L (mem s') op \<noteq> Some k) \<longrightarrow>
      view (world s') k = view (world s) k)"
proof -
  let ?tab = "view (world s)" and ?ops = "tw_ops b" and ?d = "tw_db b"
  obtain es where sep: "separate_by entry_key es" and held: "\<forall>e\<in>set es. entry_holds holds ?tab e"
      and tab: "view (world s') = fold apply_entry es ?tab"
      and "list_all2 (\<lambda>op. entry_of L ?d num op (mem s) (mem s')) ?ops es"
    using successful_entries[OF assms(1,2,4,7,8)] by blast
  then have entry: "\<And>op. op \<in> set ?ops \<Longrightarrow> \<exists>e\<in>set es. entry_of L ?d num op (mem s) (mem s') e"
    and oper: "\<And>e. e \<in> set es \<Longrightarrow> \<exists>op\<in>set ?ops. entry_of L ?d num op (mem s) (mem s') e"
    by (metis in_set_conv_nth list_all2_conv_all_nth)+
  have put: "\<exists>k av. item_of L num t a m (mem s') k av \<and> view (world s') k = Some av \<and> may_replace num m (?tab k)"
    if op: "op \<in> set ?ops" "to_put op = ptr t a" "entity (mem s) t a m" for op t a m
  proof -
    obtain k av where e: "TxPut (db_table ?d) av (Some (put_condition m)) \<in> set es" "item_of L num t a m (mem s') k av"
      using entry[OF op(1)] op(2,3) assms(5) by (auto simp: entry_of_def)
    then have "primary_key av = Some k" by (simp add: item_of_def)
    from put_entry_fold[OF sep e(1) this held[rule_format, OF e(1)] assms(3)] e(2)
    show ?thesis unfolding tab by blast
  qed
  have other: "view (world s') k = ?tab k" if "\<forall>op\<in>set ?ops. written_key L (mem s') op \<noteq> Some k" for k
    unfolding tab
  proof (rule te.fold_other, intro ballI notI)
    fix e
    assume e: "e \<in> set es" "entry_target e = Some k"
    obtain op where op: "op \<in> set ?ops" "entry_of L ?d num op (mem s) (mem s') e" using oper[OF e(1)] by blast
    have "written_key L (mem s') op = Some k"
    proof (cases "to_put op = None")
      case False
      then obtain t a m where "to_put op = ptr t a" "entity (mem s) t a m"
        using assms(6)[rule_format, OF op(1)] by auto
      with op(2) e(2) assms(5) show ?thesis by (auto simp: entry_of_def item_of_def written_key_def)
    qed (use op e in \<open>simp add: entry_of_def written_key_def\<close>)
    with that op(1) show False by blast
  qed
  have "entry_done holds ?tab (view (world s')) (to_entry op)" if "op \<in> set ?ops" "to_put op = None" for op
    using entry[OF that(1)] that(2) entry_done_fold[OF sep] held unfolding tab by (auto simp: entry_of_def)
  with put other show ?thesis by blast
qed

text \<open>
  C14: A stale entity aborts the whole transaction: when the stored version of one put's entity is not the
  version it was loaded with (or the item is gone), \<open>Run\<close> fails and the table keeps every item as it was.
\<close>

theorem stale_put_aborts_transaction:
  assumes "transact_law (db_client (tw_db b)) view holds" and "quiet L (tw_db b) view"
    and "condition_law num holds" and "version_law L t num" and "default_keyed t"
    and "db_gsi1PKAttr (tw_db b) \<notin> {''PK'', ''SK'', ''Version''}"
    and "tw_ops b = before @ op # after" and "to_put op = ptr t a"
    and "\<forall>op'\<in>set before. \<forall>t'. to_put op' \<noteq> ptr t' a"
    and "entity (mem s) t a m" and "m_CreatedAt m \<noteq> 0"
    and "\<forall>i. view (world s) (id_table_key L t (m_ID m)) = Some i \<longrightarrow> fmlookup i ''Version'' \<noteq> Some (num (m_Version m))"
    and "TransactWrite_Run L b ctx s = (r, s')"
  shows "r \<noteq> Ok () \<and> view (world s') = view (world s)"
proof (rule bad_entry_aborts[OF assms(1,2,13)])
  show "tw_ops b \<noteq> []" using assms(7) by simp
  fix es s1
  assume "write_entries L (tw_db b) ctx (tw_ops b) s = (Ok es, s1)"
  then obtain as bs s2 where w: "write_entries L (tw_db b) ctx before s = (Ok as, s2)"
      "write_entries L (tw_db b) ctx (op # after) s2 = (Ok bs, s1)" "es = as @ bs"
    unfolding assms(7) write_entries_append by blast
  have "mem s2 a = mem s a" using write_entries_frame[OF assms(9), of L "tw_db b" ctx s] w(1) by simp
  then have e: "entity (mem s2) t a m" using assms(10) by (simp add: entity_def)
  obtain av cond s3 where st: "stampAndMarshal L (tw_db b) ctx (ptr t a) s2 = (Ok (av, cond), s3)"
      and put: "TxPut (db_table (tw_db b)) av (Some cond) \<in> set bs"
    using w(2) assms(8) by (auto simp: write_entry_def continue_Ok build_expr_def split: option.splits)
  from stamped_item[OF e assms(5,4,6) st] assms(11)
  have "primary_key av = Some (id_table_key L t (m_ID m))" "cond = version_equals (m_Version m)" by auto
  then have "\<not> entry_holds holds (view (world s)) (TxPut (db_table (tw_db b)) av (Some cond))"
    using assms(3,12) by (auto simp: condition_law_def)
  with put w(3) show "\<exists>e\<in>set es. \<not> entry_holds holds (view (world s)) e" by (intro bexI) auto
qed

lemma op_stays:
  "tl.run_calls L h calls b = Ok b' \<Longrightarrow> op \<in> set (tw_ops b) \<Longrightarrow> op \<in> set (tw_ops b')"
proof (induction calls arbitrary: b)
  case (Cons c calls)
  then obtain b1 where b1: "transact_step L h c b = Ok b1" "tl.run_calls L h calls b1 = Ok b'" by auto
  have "op \<in> set (tw_ops b1)"
    using b1(1) Cons.prems(2)
    by (cases c) (auto simp: TransactWrite_Put_def TransactWrite_Delete_def ConditionCheck_def
      split: if_splits outcome.splits)
  from Cons.IH[OF b1(2) this] show ?case .
qed simp

lemma builder_db:
  "tl.run_calls L h calls b = Ok b' \<Longrightarrow> tw_db b' = tw_db b"
proof (induction calls arbitrary: b)
  case (Cons c calls)
  then obtain b1 where b1: "transact_step L h c b = Ok b1" "tl.run_calls L h calls b1 = Ok b'" by auto
  have "tw_db b1 = tw_db b"
    using b1(1) by (cases c) (auto simp: TransactWrite_Put_def TransactWrite_Delete_def ConditionCheck_def
      split: if_splits outcome.splits)
  with Cons.IH[OF b1(2)] show ?case by simp
qed simp

lemma check_queued:
  assumes "tl.run_calls L h (before @ CallTxCheck x v # after) (TransactWrite d) = Ok b" and "tw_err b = None"
    and "\<And>ps. lib_build_error L ps = None" and "any_key L h x = Ok key"
  shows "\<lparr>to_put = None, to_entry = TxCheck (db_table d) key (Some (version_equals v))\<rparr> \<in> set (tw_ops b)"
proof -
  have "\<exists>b1 b2. tl.run_calls L h before b0 = Ok b1 \<and> transact_step L h (CallTxCheck x v) b1 = Ok b2 \<and>
      tl.run_calls L h after b2 = Ok b" if "tl.run_calls L h (before @ CallTxCheck x v # after) b0 = Ok b" for b0
    using that by (induction before arbitrary: b0) auto
  then obtain b1 b2 where b: "tl.run_calls L h before (TransactWrite d) = Ok b1"
      "transact_step L h (CallTxCheck x v) b1 = Ok b2" "tl.run_calls L h after b2 = Ok b"
    using assms(1) by blast
  have "tw_err b1 = None"
  proof (rule ccontr)
    assume err: "tw_err b1 \<noteq> None"
    with b(2,3) tl.run_calls_latched[of b1 L h after] tl.latched[OF err, of L h "CallTxCheck x v"] assms(2)
    show False by auto
  qed
  moreover have "tw_db b1 = d" using builder_db[OF b(1)] by (simp add: TransactWrite_def)
  ultimately show ?thesis
    using op_stays[OF b(3)] b(2) assms(3,4) by (auto simp: ConditionCheck_def build_expr_def)
qed

lemma queued_entry:
  assumes "write_entries L d ctx ops s = (Ok es, s')" and "op \<in> set ops" and "to_put op = None"
  shows "to_entry op \<in> set es"
proof -
  have all: "list_all2 (\<lambda>op e. to_put op = None \<longrightarrow> e = to_entry op) ops es"
    using write_entries_Ok[OF assms(1)] by (rule list_all2_mono) simp
  then show ?thesis using assms(2,3) by (induction rule: list_all2_induct) auto
qed

text \<open>
  C15: \<open>ConditionCheck\<close> guards the other entries: wherever it stands in the chain of builder calls, when the
  checked item's stored version is not the expected one (or the item is gone), \<open>Run\<close> fails and the table
  keeps every item as it was.
\<close>

theorem failed_check_aborts_transaction:
  assumes "transact_law (db_client d) view holds" and "quiet L d view" and "condition_law num holds"
    and "\<And>ps. lib_build_error L ps = None"
    and "tl.run_calls L h (before @ CallTxCheck x v # after) (TransactWrite d) = Ok b"
    and "any_key L h x = Ok key" and "primary_key key = Some k"
    and "\<forall>i. view (world s) k = Some i \<longrightarrow> fmlookup i ''Version'' \<noteq> Some (num v)"
    and "TransactWrite_Run L b ctx s = (r, s')"
  shows "r \<noteq> Ok () \<and> view (world s') = view (world s)"
proof (cases "tw_err b = None")
  case True
  note op = check_queued[OF assms(5) True assms(4,6)]
  have db: "tw_db b = d" using builder_db[OF assms(5)] by (simp add: TransactWrite_def)
  show ?thesis
  proof (rule bad_entry_aborts[OF _ _ assms(9)])
    show "transact_law (db_client (tw_db b)) view holds" "quiet L (tw_db b) view" using assms(1,2) db by simp_all
    show "tw_ops b \<noteq> []" using op by auto
    fix es s1
    assume "write_entries L (tw_db b) ctx (tw_ops b) s = (Ok es, s1)"
    from queued_entry[OF this op] have "TxCheck (db_table d) key (Some (version_equals v)) \<in> set es" by simp
    moreover have "\<not> entry_holds holds (view (world s)) (TxCheck (db_table d) key (Some (version_equals v)))"
      using assms(3,7,8) by (auto simp: condition_law_def)
    ultimately show "\<exists>e\<in>set es. \<not> entry_holds holds (view (world s)) e" by blast
  qed
next
  case False
  with assms(9) show ?thesis by (auto simp: TransactWrite_Run_def)
qed

text \<open>
  C17: A transactional get reads a snapshot: what every destination holds afterwards was unmarshaled from the
  item that one and the same state of the table has under the destination's keys. Destinations without an item
  and all other objects stay as they were, and so does the table.
\<close>

theorem transact_get_reads_snapshot:
  assumes "transact_get_law (db_client (tg_db b)) view" and "tg_dsts b = map (\<lambda>(t, a). ptr t a) tas"
    and "distinct (map snd tas)" and "TransactGet_Run L b s = (Ok (), s')"
  shows "view (world s') = view (world s) \<and> (\<forall>a. a \<notin> snd ` set tas \<longrightarrow> mem s' a = mem s a) \<and>
    (\<forall>(t, a)\<in>set tas. \<exists>k. Keys L (mem s) (ptr t a) = Ok k \<and>
      (case view (world s) k of
         None \<Rightarrow> mem s' a = mem s a
       | Some av \<Rightarrow> av \<noteq> fmempty \<longrightarrow> unmarshal_value L av t (mem s a) = (Ok (), mem s' a)))"
proof (cases "tas = []")
  case True
  with assms(2,4) show ?thesis by (simp add: TransactGet_Run_def)
next
  case False
  have few: "length tas \<le> 100"
    using assms(2,4) False by (auto simp: TransactGet_Run_def transactMaxItems_def split: if_splits)
  obtain keys its where keys: "list_all2 (\<lambda>(t, a) k. any_key L (mem s) (ptr t a) = Ok k) tas keys"
      and call: "TransactGetItems (db_client (tg_db b))
        (map (\<lambda>k. \<lparr>ki_table = db_table (tg_db b), ki_key = k\<rparr>) keys) (world s) = (Inr its, world s')"
      and dsts: "\<forall>j<length tas. read_into L its j (fst (tas ! j)) (mem s (snd (tas ! j))) (mem s' (snd (tas ! j)))"
      and frame: "\<forall>a. a \<notin> snd ` set tas \<longrightarrow> mem s' a = mem s a"
    using transact_get_in_place[OF assms(4,2,3) False] by blast
  have len: "length keys = length tas" using list_all2_lengthD[OF keys] by simp
  have "\<forall>k\<in>set keys. primary_key k \<noteq> None"
    using keys by (induction rule: list_all2_induct) (auto simp: any_key_def)
  then have reply: "view (world s') = view (world s)"
      "its = map (\<lambda>k. case Option.bind (primary_key k) (view (world s)) of None \<Rightarrow> fmempty | Some av \<Rightarrow> av) keys"
    using assms(1)[unfolded transact_get_law_def, THEN spec, THEN spec, THEN spec, THEN spec, THEN mp, THEN mp,
        THEN mp, OF _ _ call] few len by (simp_all add: comp_def)
  have "\<exists>k. Keys L (mem s) (ptr t a) = Ok k \<and> (case view (world s) k of
         None \<Rightarrow> mem s' a = mem s a
       | Some av \<Rightarrow> av \<noteq> fmempty \<longrightarrow> unmarshal_value L av t (mem s a) = (Ok (), mem s' a))"
    if in_tas: "(t, a) \<in> set tas" for t a
  proof -
    obtain j where j: "j < length tas" "tas ! j = (t, a)" using in_tas by (auto simp: in_set_conv_nth)
    have "any_key L (mem s) (ptr t a) = Ok (keys ! j)" using list_all2_nthD[OF keys j(1)] j(2) by simp
    then obtain pk sk where k: "Keys L (mem s) (ptr t a) = Ok (pk, sk)" "keys ! j = itemKey pk sk"
      by (auto simp: any_key_def Keys_def)
    show ?thesis using dsts[rule_format, OF j(1)] j k len
      by (auto simp: read_into_def reply(2) split: option.splits)
  qed
  with reply(1) frame show ?thesis by blast
qed

section \<open>Witnesses\<close>

text \<open>A client whose transactions test all conditions first.\<close>

fun table_entry :: "transact_write_item \<Rightarrow> (string \<times> string, item) fmap \<Rightarrow> (string \<times> string, item) fmap" where
  "table_entry (TxPut tbl av c) m = (case primary_key av of None \<Rightarrow> m | Some k \<Rightarrow> fmupd k av m)"
| "table_entry (TxDelete tbl key) m = (case primary_key key of None \<Rightarrow> m | Some k \<Rightarrow> fmdrop k m)"
| "table_entry e m = m"

definition tx_db :: "(unit, sworld) db" where
  "tx_db = sample_db\<lparr>db_client := sample_client\<lparr>TransactWriteItems := \<lambda>es w.
     if separate_by entry_key es \<and> list_all (entry_holds sample_cond (sample_view w)) es
     then (Inr (), w\<lparr>sw_table := fold table_entry es (sw_table w)\<rparr>)
     else (Inl (TxCanceled [Some ''ConditionalCheckFailed'']), w)\<rparr>\<rparr>"

lemma tx_db_fields [simp]:
  "db_table tx_db = ''t''" "db_clock tx_db = db_clock sample_db" "db_gsi1PKAttr tx_db = ''GSI1PK''"
  by (simp_all add: tx_db_def fun_eq_iff)

lemma sample_view_table: "sample_view w = fmlookup (sw_table w)"
  by (rule ext) (simp add: sample_view_def)

lemma fold_table_entry: "fmlookup (fold table_entry es m) = fold apply_entry es (fmlookup m)"
proof (induction es arbitrary: m)
  case (Cons e es)
  have "fmlookup (table_entry e m) = apply_entry e (fmlookup m)" by (cases e) (auto split: option.splits)
  with Cons show ?case by simp
qed simp

lemma tx_law: "transact_law (db_client tx_db) sample_view sample_cond"
  by (auto simp: transact_law_def tx_db_def sample_view_table fold_table_entry list_all_iff)

lemma tx_quiet: "quiet sample_lib tx_db sample_view"
  using sample_quiet by (simp add: quiet_def)

lemma tx_stamp: "stampAndMarshal sample_lib tx_db = stampAndMarshal sample_lib sample_db"
  unfolding tx_db_def by (rule stamp_needs_no_client)

lemma tx_one_per_item: "one_per_item (db_client tx_db)"
  by (auto simp: one_per_item_def tx_db_def)

text \<open>Put task 0; the same and delete task 9.\<close>

definition tx_puts :: "(unit, sworld) transact_write_builder" where
  "tx_puts = TransactWrite_Put (ptr task_type 0) (TransactWrite tx_db)"

lemma tx_puts_fields [simp]:
  "tw_db tx_puts = tx_db" "tw_err tx_puts = None" "tw_ops tx_puts = [] @ \<lparr>to_put = ptr task_type 0, to_entry = TxEmpty\<rparr> # []"
  by (simp_all add: tx_puts_def TransactWrite_Put_def TransactWrite_def)

definition tx_pair :: "(unit, sworld) transact_write_builder" where
  "tx_pair = tx_puts\<lparr>tw_ops := tw_ops tx_puts @
     [\<lparr>to_put = None, to_entry = TxDelete ''t'' (itemKey ''Task#9'' ''Task#9'')\<rparr>]\<rparr>"

lemma tx_pair_fields [simp]:
  "tw_db tx_pair = tx_db" "tw_err tx_pair = None"
  "tw_ops tx_pair = [\<lparr>to_put = ptr task_type 0, to_entry = TxEmpty\<rparr>,
     \<lparr>to_put = None, to_entry = TxDelete ''t'' (itemKey ''Task#9'' ''Task#9'')\<rparr>]"
  by (simp_all add: tx_pair_def)

lemma tx_pair_run:
  "\<exists>s'. TransactWrite_Run sample_lib tx_pair () (task_st saved_model ''n'' saved_world) = (Ok (), s')"
proof -
  let ?s = "task_st saved_model ''n'' saved_world"
  obtain m w' where st: "stampAndMarshal sample_lib tx_db () (ptr task_type 0) ?s = (Ok (task_item False m ''n'', version_equals 1), w')"
      and m: "m_ID m = 5" and w': "sw_table (world w') = sw_table saved_world"
    using task_st_update[of "''n''" saved_world] by (auto simp: tx_stamp Let_def stamped_update_def)
  have k: "primary_key (task_item False m ''n'') = Some (''Task#5'', ''Task#5'')"
    using m by (simp add: task_item_def primary_key_def Let_def nat_string.simps)
  have "sample_cond (version_equals 1) (Some (task_item True saved_model ''n''))"
    by (simp add: version_equals_def saved_task_facts(2)) (simp add: num_attr_def)
  then have held: "entry_holds sample_cond (sample_view (world w')) (TxPut ''t'' (task_item False m ''n'') (Some (version_equals 1)))"
    using saved_task_facts(1) w' by (simp add: k sample_view_table)
  have sep: "separate_by entry_key [TxPut ''t'' (task_item False m ''n'') c, TxDelete ''t'' (itemKey ''Task#9'' ''Task#9'')]" for c
    by (simp add: separate_by_Cons k)
  let ?es = "[TxPut ''t'' (task_item False m ''n'') (Some (version_equals 1)), TxDelete ''t'' (itemKey ''Task#9'' ''Task#9'')]"
  have "write_entries sample_lib tx_db () (tw_ops tx_pair) ?s = (Ok ?es, w')"
    by (simp add: write_entry_def st build_expr_def no_parts_def)
  moreover have "\<exists>w. TransactWriteItems (db_client tx_db) ?es (world w') = (Inr (), w)"
    using sep held by (simp add: tx_db_def)
  ultimately show ?thesis
    by (auto simp: TransactWrite_Run_def transactMaxItems_def api_def simp del: write_entries.simps)
qed

theorem transaction_applies_all_witness:
  "\<exists>s' av. TransactWrite_Run sample_lib tx_pair () (task_st saved_model ''n'' saved_world) = (Ok (), s') \<and>
    sample_view (world s') (''Task#5'', ''Task#5'') = Some av \<and> fmlookup av ''Version'' = Some (num_attr 2) \<and>
    sample_view (world s') (''Task#9'', ''Task#9'') = None"
proof -
  let ?s = "task_st saved_model ''n'' saved_world"
  obtain s' where run: "TransactWrite_Run sample_lib tx_pair () ?s = (Ok (), s')" using tx_pair_run by blast
  have e: "entity (mem ?s) task_type 0 saved_model" by (rule task_entity) (simp add: task_st_def)
  have laws: "transact_law (db_client (tw_db tx_pair)) sample_view sample_cond" "one_per_item (db_client (tw_db tx_pair))"
      "quiet sample_lib (tw_db tx_pair) sample_view" "db_gsi1PKAttr (tw_db tx_pair) \<notin> {''PK'', ''SK'', ''Version''}"
    using tx_law tx_quiet tx_one_per_item by simp_all
  have ops: "\<forall>op\<in>set (tw_ops tx_pair). to_put op = None \<or> (\<exists>t a m. to_put op = ptr t a \<and> entity (mem ?s) t a m)"
      "distinct (List.map_filter put_addr (tw_ops tx_pair))"
    using e by (auto simp: map_filter_simps put_addr_def)
  note all = transaction_applies_all[OF laws(1,2) sample_condition_law laws(3,4) ops run]
  obtain k av where put: "item_of sample_lib num_attr task_type 0 saved_model (mem s') k av" "sample_view (world s') k = Some av"
    using all[THEN conjunct1] e by auto
  then obtain m' where m': "entity (mem s') task_type 0 m'" "saved saved_model m'"
      "fmlookup av ''Version'' = Some (num_attr (m_Version m'))" "Keys sample_lib (mem s') (ptr task_type 0) = Ok k"
    using task_version_law by (auto simp: item_of_def)
  have "m_ID m' = 5" "m_Version m' = 2" using m'(2) by (simp_all add: saved_def)
  moreover from this have "k = (''Task#5'', ''Task#5'')"
    using default_keys_of_entity[OF task_default_keyed m'(1), of sample_lib] m'(4) by (auto simp: id_key_5)
  moreover have "sample_view (world s') (''Task#9'', ''Task#9'') = None"
    using all[THEN conjunct2, THEN conjunct1] by simp
  ultimately show ?thesis using run put(2) m'(3) by auto
qed

text \<open>The table has moved on to version 2.\<close>

definition newer_world :: sworld where
  "newer_world = empty_world\<lparr>sw_table := fmupd (''Task#5'', ''Task#5'')
     (fmupd ''Version'' (num_attr 2) (itemKey ''Task#5'' ''Task#5'')) fmempty\<rparr>"

lemma newer_version:
  "\<forall>i. sample_view newer_world (id_table_key sample_lib task_type 5) = Some i \<longrightarrow> fmlookup i ''Version'' \<noteq> Some (num_attr 1)"
proof -
  have "inj num_attr" using sample_condition_law by (simp add: condition_law_def)
  then have "num_attr 2 \<noteq> num_attr 1" by (simp add: inj_eq)
  then show ?thesis by (simp add: newer_world_def sample_view_table id_key_5)
qed

theorem stale_put_aborts_transaction_witness:
  "\<exists>r s'. TransactWrite_Run sample_lib tx_puts () (task_st saved_model ''n'' newer_world) = (r, s') \<and> r \<noteq> Ok () \<and>
    sample_view (world s') = sample_view newer_world"
proof -
  let ?s = "task_st saved_model ''n'' newer_world"
  obtain r s' where run: "TransactWrite_Run sample_lib tx_puts () ?s = (r, s')" by fastforce
  have e: "entity (mem ?s) task_type 0 saved_model" by (rule task_entity) (simp add: task_st_def)
  have laws: "transact_law (db_client (tw_db tx_puts)) sample_view sample_cond" "quiet sample_lib (tw_db tx_puts) sample_view"
    "db_gsi1PKAttr (tw_db tx_puts) \<notin> {''PK'', ''SK'', ''Version''}"
    using tx_law tx_quiet by simp_all
  have stale: "\<forall>i. sample_view (world ?s) (id_table_key sample_lib task_type (m_ID saved_model)) = Some i \<longrightarrow>
      fmlookup i ''Version'' \<noteq> Some (num_attr (m_Version saved_model))"
    using newer_version by (simp add: task_st_def)
  from stale_put_aborts_transaction[OF laws(1,2) sample_condition_law task_version_law task_default_keyed laws(3)
      tx_puts_fields(3) _ _ e _ stale run] run
  show ?thesis by (simp add: task_st_def)
qed

theorem failed_check_aborts_transaction_witness:
  "\<exists>b r s'. tl.run_calls sample_lib (mem (task_st saved_model ''n'' newer_world))
      ([CallTxDelete (ptr task_type 0)] @ CallTxCheck (ptr task_type 0) 1 # []) (TransactWrite tx_db) = Ok b \<and>
    TransactWrite_Run sample_lib b () (task_st saved_model ''n'' newer_world) = (r, s') \<and> r \<noteq> Ok () \<and>
    sample_view (world s') = sample_view newer_world"
proof -
  let ?s = "task_st saved_model ''n'' newer_world"
  have key: "any_key sample_lib (mem ?s) (ptr task_type 0) = Ok (itemKey ''Task#5'' ''Task#5'')"
    by (simp add: any_key_def task_st_def task_keys[of _ _ saved_model "''n''"] nat_string.simps)
  then obtain b where b: "tl.run_calls sample_lib (mem ?s)
      ([CallTxDelete (ptr task_type 0)] @ CallTxCheck (ptr task_type 0) 1 # []) (TransactWrite tx_db) = Ok b"
    by (simp add: TransactWrite_def TransactWrite_Delete_def ConditionCheck_def build_expr_def)
  obtain r s' where run: "TransactWrite_Run sample_lib b () ?s = (r, s')" by fastforce
  have stale: "\<forall>i. sample_view (world ?s) (''Task#5'', ''Task#5'') = Some i \<longrightarrow> fmlookup i ''Version'' \<noteq> Some (num_attr 1)"
    using newer_version by (simp add: task_st_def id_key_5)
  from failed_check_aborts_transaction[OF tx_law tx_quiet sample_condition_law sample_db_laws(3) b key
      primary_key_itemKey stale run] b run
  show ?thesis by (auto simp: task_st_def)
qed

lemma sample_transact_get_law: "transact_get_law sample_client sample_view"
  unfolding transact_get_law_def
proof (intro allI impI)
  fix ks its and w w' :: sworld
  assume keys: "\<forall>k\<in>set ks. primary_key (ki_key k) \<noteq> None"
    and "TransactGetItems sample_client ks w = (Inr its, w')"
  then have "w' = w"
      "its = map (\<lambda>k. case fmlookup (sw_table w) (key_of (ki_key k)) of None \<Rightarrow> fmempty | Some it \<Rightarrow> it) ks"
    by (auto simp: sample_client_def)
  with keys show "sample_view w' = sample_view w \<and> its = map (\<lambda>k.
      case Option.bind (primary_key (ki_key k)) (sample_view w) of None \<Rightarrow> fmempty | Some av \<Rightarrow> av) ks"
    by (auto simp: sample_view_table primary_key_key_of)
qed

text \<open>Task 5 is read over a copy of it with other notes.\<close>

definition tx_read :: "(unit, sworld) transact_get_builder" where
  "tx_read = TransactGet_Get (ptr task_type 0) (TransactGet sample_db)"

theorem transact_get_reads_snapshot_witness:
  "\<exists>s'. TransactGet_Run sample_lib tx_read (task_st saved_model ''old'' saved_world) = (Ok (), s') \<and>
    unmarshal_value sample_lib (task_item True saved_model ''n'') task_type (task_value saved_model ''old'') =
      (Ok (), mem s' 0)"
proof -
  let ?s = "task_st saved_model ''old'' saved_world"
  have f: "tg_dsts tx_read = map (\<lambda>(t, a). ptr t a) [(task_type, 0)]" "tg_db tx_read = sample_db"
    by (simp_all add: tx_read_def TransactGet_Get_def TransactGet_def)
  have keys: "Keys sample_lib (mem ?s) (ptr task_type 0) = Ok (''Task#5'', ''Task#5'')"
    by (simp add: Keys_def task_st_def task_keys[of _ _ saved_model "''old''"] nat_string.simps)
  then have key: "any_key sample_lib (mem ?s) (ptr task_type 0) = Ok (itemKey ''Task#5'' ''Task#5'')"
    by (auto simp: Keys_def any_key_def)
  have item: "sample_view saved_world (''Task#5'', ''Task#5'') = Some (task_item True saved_model ''n'')"
      "task_item True saved_model ''n'' \<noteq> fmempty"
    using saved_task_facts(1) saved_task_facts(3)[where c = True and n = "''n''"] by auto
  obtain v where "unmarshal_value sample_lib (task_item True saved_model ''n'') task_type (task_value saved_model ''old'') = (Ok (), v)"
    using task_reads_into[OF saved_task_facts(3)] by blast
  then obtain s' where run: "TransactGet_Run sample_lib tx_read ?s = (Ok (), s')"
    using key item
    by (auto simp: TransactGet_Run_def f transactMaxItems_def api_def sample_client_def in_heap_def
        sample_view_table unmarshalItemInto_def task_st_def primary_key_key_of[OF primary_key_itemKey])
  have law: "transact_get_law (db_client (tg_db tx_read)) sample_view" using sample_transact_get_law f(2) by simp
  from transact_get_reads_snapshot[OF law f(1) _ run] keys item run show ?thesis
    by (auto simp: task_st_def)
qed

end
