(* ===== verification/Scan.thy ===== *)
theory Scan
  imports Client_DB Paging Filters
begin

text \<open>
  \<open>scan.go\<close>: the scan builder, its request, the loop over one segment, and the parallel
  scan. The goroutines of a parallel scan are threads that take turns, one service call or one locked
  section per turn, in any order that a schedule gives.
\<close>

section \<open>The builder\<close>

record ('c, 'w) scan_builder =
  scb_type :: gtype
  scb_db :: "('c, 'w) db"
  scb_filters :: "filter_condition list"
  scb_limit :: "32 word option"
  scb_total :: go_int

definition Scan :: "gtype \<Rightarrow> ('c, 'w) db \<Rightarrow> ('c, 'w) scan_builder" where
  "Scan t d =
     \<lparr>scb_type = t, scb_db = d, scb_filters = [], scb_limit = None, scb_total = 0\<rparr>"

definition Scan_addFilter ::
    "('c, 'w) scan_builder \<Rightarrow> filter_op \<Rightarrow> string \<Rightarrow> go_any \<Rightarrow> ('c, 'w) scan_builder" where
  "Scan_addFilter b op field v =
     (let attr = resolve_attr_name (scb_type b) field in
      b\<lparr>scb_filters := scb_filters b @ [\<lparr>fc_op = op, fc_field = attr, fc_value = v\<rparr>]\<rparr>)"

definition Scan_Filter :: "string \<Rightarrow> go_any \<Rightarrow> ('c, 'w) scan_builder \<Rightarrow> ('c, 'w) scan_builder" where
  "Scan_Filter field v b = Scan_addFilter b filterEqual field v"

definition Scan_FilterEqual :: "string \<Rightarrow> go_any \<Rightarrow> ('c, 'w) scan_builder \<Rightarrow> ('c, 'w) scan_builder" where
  "Scan_FilterEqual field v b = Scan_addFilter b filterEqual field v"

definition Scan_FilterNotEqual :: "string \<Rightarrow> go_any \<Rightarrow> ('c, 'w) scan_builder \<Rightarrow> ('c, 'w) scan_builder" where
  "Scan_FilterNotEqual field v b = Scan_addFilter b filterNotEqual field v"

definition Scan_FilterGreaterThan :: "string \<Rightarrow> go_any \<Rightarrow> ('c, 'w) scan_builder \<Rightarrow> ('c, 'w) scan_builder" where
  "Scan_FilterGreaterThan field v b = Scan_addFilter b filterGreaterThan field v"

definition Scan_FilterGreaterOrEqual :: "string \<Rightarrow> go_any \<Rightarrow> ('c, 'w) scan_builder \<Rightarrow> ('c, 'w) scan_builder" where
  "Scan_FilterGreaterOrEqual field v b = Scan_addFilter b filterGreaterOrEqual field v"

definition Scan_FilterLessThan :: "string \<Rightarrow> go_any \<Rightarrow> ('c, 'w) scan_builder \<Rightarrow> ('c, 'w) scan_builder" where
  "Scan_FilterLessThan field v b = Scan_addFilter b filterLessThan field v"

definition Scan_FilterLessOrEqual :: "string \<Rightarrow> go_any \<Rightarrow> ('c, 'w) scan_builder \<Rightarrow> ('c, 'w) scan_builder" where
  "Scan_FilterLessOrEqual field v b = Scan_addFilter b filterLessOrEqual field v"

definition Scan_FilterBeginsWith :: "string \<Rightarrow> string \<Rightarrow> ('c, 'w) scan_builder \<Rightarrow> ('c, 'w) scan_builder" where
  "Scan_FilterBeginsWith field prefix b =
     Scan_addFilter b filterBeginsWith field (Some (TString, VStr prefix))"

definition Scan_FilterContains :: "string \<Rightarrow> go_any \<Rightarrow> ('c, 'w) scan_builder \<Rightarrow> ('c, 'w) scan_builder" where
  "Scan_FilterContains field v b = Scan_addFilter b filterContains field v"

definition Scan_FilterExists :: "string \<Rightarrow> ('c, 'w) scan_builder \<Rightarrow> ('c, 'w) scan_builder" where
  "Scan_FilterExists field b = Scan_addFilter b filterExists field None"

definition Scan_FilterNotExists :: "string \<Rightarrow> ('c, 'w) scan_builder \<Rightarrow> ('c, 'w) scan_builder" where
  "Scan_FilterNotExists field b = Scan_addFilter b filterNotExists field None"

definition Scan_Limit :: "32 word \<Rightarrow> ('c, 'w) scan_builder \<Rightarrow> ('c, 'w) scan_builder" where
  "Scan_Limit n b = b\<lparr>scb_limit := Some n\<rparr>"

definition Parallel :: "go_int \<Rightarrow> ('c, 'w) scan_builder \<Rightarrow> ('c, 'w) scan_builder" where
  "Parallel n b = b\<lparr>scb_total := n\<rparr>"

section \<open>The request of a segment\<close>

text \<open>\<open>int32(x)\<close> keeps the low 32 bits; comparisons of \<open>int\<close> are signed.\<close>

definition max_int32 :: go_int where
  "max_int32 = 2147483647"

definition Scan_buildInput :: "'w lib \<Rightarrow> ('c, 'w) scan_builder \<Rightarrow> go_int \<Rightarrow> scan_input outcome" where
  "Scan_buildInput L b segment =
     (let input = \<lparr>si_table = db_table (scb_db b), si_filter = None, si_limit = None,
        si_segment = None, si_total = None, si_start = fmempty\<rparr> in
      and_then
        (if scb_filters b \<noteq> []
         then and_then (filterExpression (scb_filters b)) (\<lambda>c.
           map_ok (\<lambda>ex. input\<lparr>si_filter := ex_filter ex\<rparr>)
             (wrap_fail ''godynamo: building scan expression''
               (build_expr L (no_parts\<lparr>ex_filter := Some c\<rparr>))))
         else Ok input) (\<lambda>input.
      let input = input\<lparr>si_limit := scb_limit b\<rparr> in
      if 1 <s scb_total b
      then
        (if max_int32 <s scb_total b
         then Fail (OtherErr (''godynamo: scan: totalSegments '' @ int_string (sint (scb_total b)) @
           '' exceeds int32 range''))
         else Ok (input\<lparr>si_segment := Some (ucast segment), si_total := Some (ucast (scb_total b))\<rparr>))
      else Ok input))"

section \<open>One segment\<close>

definition scan_call :: "('c, 'w) scan_builder \<Rightarrow> scan_input \<Rightarrow> ('w st, page) act" where
  "scan_call b input s =
     map_fail (Wrapped (''godynamo: scan '' @ type_name (scb_type b)))
       (api (ScanCall (db_client (scb_db b))) input s)"

partial_function (option) scan_loop ::
    "'w lib \<Rightarrow> ('c, 'w) scan_builder \<Rightarrow> scan_input \<Rightarrow> gval list \<Rightarrow> 'w st \<Rightarrow>
     (gval list outcome \<times> 'w st) option" where
  "scan_loop L b input items s =
     (case scan_call b input s of
        (Ok out, s1) \<Rightarrow>
          (case unmarshal_items L (scb_type b) (pg_items out) of
             Ok xs \<Rightarrow>
               (if pg_last out = fmempty then Some (Ok (items @ xs), s1)
                else scan_loop L b (input\<lparr>si_start := pg_last out\<rparr>) (items @ xs) s1)
           | Fail e \<Rightarrow> Some (Fail e, s1)
           | Panic m \<Rightarrow> Some (Panic m, s1))
      | (Fail e, s1) \<Rightarrow> Some (Fail e, s1)
      | (Panic m, s1) \<Rightarrow> Some (Panic m, s1))"

definition scanSegment ::
    "'w lib \<Rightarrow> ('c, 'w) scan_builder \<Rightarrow> go_int \<Rightarrow> 'w st \<Rightarrow> (gval list outcome \<times> 'w st) option" where
  "scanSegment L b segment s =
     (case Scan_buildInput L b segment of
        Ok input \<Rightarrow> scan_loop L b input [] s
      | Fail e \<Rightarrow> Some (Fail e, s)
      | Panic m \<Rightarrow> Some (Panic m, s))"

section \<open>The parallel scan\<close>

text \<open>
  A goroutine: before it builds its input, about to issue a call with the items it has so far,
  returned from \<open>scanSegment\<close> and waiting for the lock, or done. A panic in a goroutine ends the
  program: \<open>pr_crash\<close>.
\<close>

datatype thread =
    Launched
  | Scanning scan_input "gval list"
  | Returned "gval list outcome"
  | Finished "gval list outcome"

record 'w par =
  pr_st :: "'w st"
  pr_threads :: "thread list"
  pr_items :: "gval list"
  pr_err :: "go_err option"
  pr_crash :: "string option"

definition segment_of :: "nat \<Rightarrow> go_int" where
  "segment_of i = word_of_nat i"

definition par_init :: "('c, 'w) scan_builder \<Rightarrow> 'w st \<Rightarrow> 'w par" where
  "par_init b s =
     \<lparr>pr_st = s, pr_threads = replicate (nat (sint (scb_total b))) Launched, pr_items = [],
      pr_err = None, pr_crash = None\<rparr>"

definition scan_page ::
    "'w lib \<Rightarrow> ('c, 'w) scan_builder \<Rightarrow> scan_input \<Rightarrow> gval list \<Rightarrow> 'w st \<Rightarrow> thread \<times> 'w st" where
  "scan_page L b input items s =
     (case scan_call b input s of
        (Ok out, s1) \<Rightarrow>
          (case unmarshal_items L (scb_type b) (pg_items out) of
             Ok xs \<Rightarrow>
               (if pg_last out = fmempty then (Returned (Ok (items @ xs)), s1)
                else (Scanning (input\<lparr>si_start := pg_last out\<rparr>) (items @ xs), s1))
           | Fail e \<Rightarrow> (Returned (Fail e), s1)
           | Panic m \<Rightarrow> (Returned (Panic m), s1))
      | (Fail e, s1) \<Rightarrow> (Returned (Fail e), s1)
      | (Panic m, s1) \<Rightarrow> (Returned (Panic m), s1))"

text \<open>One turn of goroutine \<open>i\<close>; \<open>None\<close> when it cannot move.\<close>

definition par_step ::
    "'w lib \<Rightarrow> ('c, 'w) scan_builder \<Rightarrow> nat \<Rightarrow> 'w par \<Rightarrow> 'w par option" where
  "par_step L b i p =
     (if pr_crash p \<noteq> None \<or> \<not> i < length (pr_threads p) then None
      else (case pr_threads p ! i of
        Launched \<Rightarrow>
          Some (p\<lparr>pr_threads := (pr_threads p)[i := (case Scan_buildInput L b (segment_of i) of
            Ok input \<Rightarrow> Scanning input []
          | Fail e \<Rightarrow> Returned (Fail e)
          | Panic m \<Rightarrow> Returned (Panic m))]\<rparr>)
      | Scanning input items \<Rightarrow>
          (case scan_page L b input items (pr_st p) of (t, s1) \<Rightarrow>
            Some (p\<lparr>pr_threads := (pr_threads p)[i := t], pr_st := s1\<rparr>))
      | Returned (Ok xs) \<Rightarrow>
          Some (p\<lparr>pr_threads := (pr_threads p)[i := Finished (Ok xs)], pr_items := pr_items p @ xs\<rparr>)
      | Returned (Fail e) \<Rightarrow>
          Some (p\<lparr>pr_threads := (pr_threads p)[i := Finished (Fail e)],
                  pr_err := (case pr_err p of None \<Rightarrow> Some e | Some e' \<Rightarrow> Some e')\<rparr>)
      | Returned (Panic m) \<Rightarrow> Some (p\<lparr>pr_crash := Some m\<rparr>)
      | Finished r \<Rightarrow> None))"

text \<open>A run of a schedule, which names the goroutine of each turn.\<close>

fun par_run :: "'w lib \<Rightarrow> ('c, 'w) scan_builder \<Rightarrow> nat list \<Rightarrow> 'w par \<Rightarrow> 'w par option" where
  "par_run L b [] p = Some p"
| "par_run L b (i # is) p = Option.bind (par_step L b i p) (par_run L b is)"

text \<open>
  What \<open>allParallel\<close> returns after \<open>wg.Wait()\<close>: \<open>None\<close> while a goroutine is not done.
\<close>

definition par_result :: "'w par \<Rightarrow> (gval list outcome \<times> 'w st) option" where
  "par_result p =
     (case pr_crash p of
        Some m \<Rightarrow> Some (Panic m, pr_st p)
      | None \<Rightarrow>
          (if list_all (\<lambda>t. case t of Finished r \<Rightarrow> True | _ \<Rightarrow> False) (pr_threads p)
           then Some (case pr_err p of Some e \<Rightarrow> Fail e | None \<Rightarrow> Ok (pr_items p), pr_st p)
           else None))"

definition allParallel ::
    "'w lib \<Rightarrow> ('c, 'w) scan_builder \<Rightarrow> nat list \<Rightarrow> 'w st \<Rightarrow> (gval list outcome \<times> 'w st) option" where
  "allParallel L b sched s = Option.bind (par_run L b sched (par_init b s)) par_result"

definition Scan_All ::
    "'w lib \<Rightarrow> ('c, 'w) scan_builder \<Rightarrow> nat list \<Rightarrow> 'w st \<Rightarrow> (gval list outcome \<times> 'w st) option" where
  "Scan_All L b sched s =
     (if 1 <s scb_total b then allParallel L b sched s else scanSegment L b 0 s)"

section \<open>Lemmas\<close>

lemmas scan_filter_calls = Scan_Filter_def Scan_FilterEqual_def Scan_FilterNotEqual_def
  Scan_FilterGreaterThan_def Scan_FilterGreaterOrEqual_def Scan_FilterLessThan_def
  Scan_FilterLessOrEqual_def Scan_FilterBeginsWith_def Scan_FilterContains_def
  Scan_FilterExists_def Scan_FilterNotExists_def

interpretation sf: filter_builder scb_filters scb_type Scan_addFilter
  by unfold_locales (simp_all add: Scan_addFilter_def resolved_filter_def Let_def)

definition scan_next :: "scan_input \<Rightarrow> page \<Rightarrow> scan_input option" where
  "scan_next i p = (if pg_last p = fmempty then None else Some (i\<lparr>si_start := pg_last p\<rparr>))"

interpretation sp: paginator "scan_call b" scan_next pg_items "unmarshal_item L (scb_type b)" "scan_loop L b"
  for L :: "'w lib" and b :: "('c, 'w) scan_builder"
proof unfold_locales
  fix i acc s
  show "scan_loop L b i acc s = (case scan_call b i s of
         (Ok p, s1) \<Rightarrow>
           (case traverse (unmarshal_item L (scb_type b)) (pg_items p) of
              Ok xs \<Rightarrow> (case scan_next i p of
                   None \<Rightarrow> Some (Ok (acc @ xs), s1)
                 | Some j \<Rightarrow> scan_loop L b j (acc @ xs) s1)
            | Fail e \<Rightarrow> Some (Fail e, s1)
            | Panic m \<Rightarrow> Some (Panic m, s1))
       | (Fail e, s1) \<Rightarrow> Some (Fail e, s1)
       | (Panic m, s1) \<Rightarrow> Some (Panic m, s1))"
    by (subst scan_loop.simps)
      (auto simp: unmarshal_items_def scan_next_def split: prod.split outcome.split)
next
  fix i acc s r and P :: "scan_input \<Rightarrow> gval list \<Rightarrow> 'w st \<Rightarrow> gval list outcome \<times> 'w st \<Rightarrow> bool"
  assume loop: "scan_loop L b i acc s = Some r"
    and last: "\<And>i acc s p s1 xs. scan_call b i s = (Ok p, s1) \<Longrightarrow>
      traverse (unmarshal_item L (scb_type b)) (pg_items p) = Ok xs \<Longrightarrow> scan_next i p = None \<Longrightarrow>
      P i acc s (Ok (acc @ xs), s1)"
    and more: "\<And>i acc s p s1 xs j r. scan_call b i s = (Ok p, s1) \<Longrightarrow>
      traverse (unmarshal_item L (scb_type b)) (pg_items p) = Ok xs \<Longrightarrow> scan_next i p = Some j \<Longrightarrow>
      P j (acc @ xs) s1 r \<Longrightarrow> P i acc s r"
    and bad: "\<And>i acc s p s1 r. scan_call b i s = (Ok p, s1) \<Longrightarrow>
      traverse (unmarshal_item L (scb_type b)) (pg_items p) = r \<Longrightarrow> (\<And>xs. r \<noteq> Ok xs) \<Longrightarrow> P i acc s (r, s1)"
    and fail: "\<And>i acc s e s1. scan_call b i s = (Fail e, s1) \<Longrightarrow> P i acc s (Fail e, s1)"
    and panic: "\<And>i acc s m s1. scan_call b i s = (Panic m, s1) \<Longrightarrow> P i acc s (Panic m, s1)"
  show "P i acc s r"
  proof (rule scan_loop.raw_induct[OF _ loop, where
        P = "\<lambda>L' b' i acc s r. L' = L \<longrightarrow> b' = b \<longrightarrow> P i acc s r", THEN mp, OF _ refl, THEN mp, OF _ refl], goal_cases)
    case (1 rec L' b' i acc s r)
    from 1(2) show ?case
      by (auto simp: scan_next_def unmarshal_items_def
          intro: last bad fail panic more[OF _ _ _ 1(1)[rule_format]]
          split: prod.splits outcome.splits if_splits)
  qed
qed

text \<open>Segment numbers at 32 bits.\<close>

lemma sint_ucast_small:
  assumes "0 \<le> sint (x :: go_int)" and "sint x < 2 ^ 31"
  shows "sint (ucast x :: 32 word) = sint x"
proof -
  have "uint x = sint x" using assms by (simp add: uint_sint take_bit_int_eq_self)
  then show ?thesis using assms by (simp add: signed_ucast_eq signed_take_bit_int_eq_self)
qed

section \<open>Lemmas on the parallel scan\<close>

lemma sum_list_update_add:
  fixes f :: "'a \<Rightarrow> 'b :: comm_monoid_add"
  shows "i < length ts \<Longrightarrow> sum_list (map f (ts[i := t])) + f (ts ! i) = sum_list (map f ts) + f t"
proof (induction ts arbitrary: i)
  case Nil
  then show ?case by simp
next
  case (Cons a ts)
  show ?case
  proof (cases i)
    case 0
    then show ?thesis by (simp add: ac_simps)
  next
    case (Suc j)
    with Cons show ?thesis by (simp add: ac_simps)
  qed
qed

definition merged_items :: "thread \<Rightarrow> gval multiset" where
  "merged_items t = (case t of Finished (Ok xs) \<Rightarrow> mset xs | _ \<Rightarrow> {#})"

lemma merged_items_Ok [simp]: "merged_items (Finished (Ok xs)) = mset xs"
  by (simp add: merged_items_def)

text \<open>What the lock protects.\<close>

definition merge_inv :: "'w par \<Rightarrow> bool" where
  "merge_inv p \<longleftrightarrow>
     mset (pr_items p) = sum_list (map merged_items (pr_threads p)) \<and>
     (pr_err p = None \<longleftrightarrow> (\<forall>e. Finished (Fail e) \<notin> set (pr_threads p))) \<and>
     (\<forall>e. pr_err p = Some e \<longrightarrow> Finished (Fail e) \<in> set (pr_threads p)) \<and>
     (\<forall>m. Finished (Panic m) \<notin> set (pr_threads p))"

lemma finished_update:
  assumes "i < length ts" and "\<And>r. ts ! i \<noteq> Finished r"
  shows "Finished r \<in> set (ts[i := t]) \<longleftrightarrow> t = Finished r \<or> Finished r \<in> set ts"
proof
  assume "Finished r \<in> set (ts[i := t])"
  then show "t = Finished r \<or> Finished r \<in> set ts" using set_update_subset_insert by fastforce
next
  assume "t = Finished r \<or> Finished r \<in> set ts"
  then show "Finished r \<in> set (ts[i := t])"
  proof
    assume "t = Finished r"
    then show ?thesis using assms(1) by (metis set_update_memI)
  next
    assume "Finished r \<in> set ts"
    then obtain j where "j < length ts" "ts ! j = Finished r" by (auto simp: in_set_conv_nth)
    moreover from this assms(2) have "j \<noteq> i" by auto
    ultimately show ?thesis by (auto simp: in_set_conv_nth intro!: exI[of _ j])
  qed
qed

lemma merged_update:
  assumes "i < length ts" and "\<And>r. ts ! i \<noteq> Finished r"
  shows "sum_list (map merged_items (ts[i := t])) = sum_list (map merged_items ts) + merged_items t"
proof -
  have "merged_items (ts ! i) = {#}" using assms(2) by (cases "ts ! i") (auto simp: merged_items_def)
  then show ?thesis using sum_list_update_add[OF assms(1), of merged_items t] by simp
qed

text \<open>The cases of a turn.\<close>

lemma par_step_cases:
  assumes "par_step L b i p = Some p'"
  shows "i < length (pr_threads p) \<and> pr_crash p = None \<and> (\<forall>r. pr_threads p ! i \<noteq> Finished r) \<and>
    ((\<exists>t s1. p' = p\<lparr>pr_threads := (pr_threads p)[i := t], pr_st := s1\<rparr> \<and> (\<forall>r. t \<noteq> Finished r)) \<or>
     (\<exists>xs. pr_threads p ! i = Returned (Ok xs) \<and>
        p' = p\<lparr>pr_threads := (pr_threads p)[i := Finished (Ok xs)], pr_items := pr_items p @ xs\<rparr>) \<or>
     (\<exists>e. pr_threads p ! i = Returned (Fail e) \<and>
        p' = p\<lparr>pr_threads := (pr_threads p)[i := Finished (Fail e)],
          pr_err := (case pr_err p of None \<Rightarrow> Some e | Some e' \<Rightarrow> Some e')\<rparr>) \<or>
     (\<exists>m. pr_threads p ! i = Returned (Panic m) \<and> p' = p\<lparr>pr_crash := Some m\<rparr>))"
proof -
  have i: "i < length (pr_threads p)" and c: "pr_crash p = None"
    using assms by (auto simp: par_step_def split: if_splits)
  show ?thesis
  proof (cases "pr_threads p ! i")
    case Launched
    let ?t = "case Scan_buildInput L b (segment_of i) of Ok input \<Rightarrow> Scanning input []
          | Fail e \<Rightarrow> Returned (Fail e) | Panic m \<Rightarrow> Returned (Panic m)"
    have "p' = p\<lparr>pr_threads := (pr_threads p)[i := ?t], pr_st := pr_st p\<rparr>"
      using assms Launched i c by (cases p) (auto simp: par_step_def)
    moreover have "\<forall>r. ?t \<noteq> Finished r" by (simp split: outcome.split)
    ultimately have "\<exists>t s1. p' = p\<lparr>pr_threads := (pr_threads p)[i := t], pr_st := s1\<rparr> \<and>
        (\<forall>r. t \<noteq> Finished r)" by blast
    then show ?thesis using i c Launched by simp
  next
    case (Scanning input items)
    obtain t s1 where t: "scan_page L b input items (pr_st p) = (t, s1)" by fastforce
    then have "\<forall>r. t \<noteq> Finished r"
      by (auto simp: scan_page_def split: prod.splits outcome.splits if_splits)
    with t assms Scanning i c show ?thesis by (auto simp: par_step_def)
  next
    case (Returned r)
    with assms i c show ?thesis by (cases r) (auto simp: par_step_def)
  next
    case (Finished r)
    with assms i c show ?thesis by (simp add: par_step_def)
  qed
qed

lemma merge_inv_step:
  assumes "par_step L b i p = Some p'" and "merge_inv p"
  shows "merge_inv p' \<and> length (pr_threads p') = length (pr_threads p)"
proof -
  note c = par_step_cases[OF assms(1)]
  have i: "i < length (pr_threads p)" and nf: "\<And>r. pr_threads p ! i \<noteq> Finished r" using c by auto
  note upd = finished_update[OF i nf] merged_update[OF i nf]
  from c show ?thesis
    using assms(2) unfolding merge_inv_def
    by (elim conjE disjE exE)
      (auto simp: upd merged_items_def split: thread.split option.split)
qed

lemma merge_inv_init: "merge_inv (par_init b s)"
proof -
  have "sum_list (replicate n ({#} :: gval multiset)) = {#}" for n by (induction n) auto
  then show ?thesis by (simp add: merge_inv_def par_init_def merged_items_def)
qed

lemma par_run_keeps:
  assumes "par_run L b is p = Some p'" and "I p"
    and "\<And>i p p'. par_step L b i p = Some p' \<Longrightarrow> I p \<Longrightarrow> I p'"
  shows "I p'"
  using assms(1,2)
proof (induction "is" arbitrary: p)
  case (Cons i "is")
  then obtain q where "par_step L b i p = Some q" "par_run L b is q = Some p'"
    by (auto simp: bind_eq_Some_conv)
  with Cons assms(3) show ?case by blast
qed simp

text \<open>
  Replies that do not depend on the world: a snapshot of the table. Then what a goroutine has read
  is what its segment's own scan reads.
\<close>

definition snapshot :: "('c, 'w) scan_builder \<Rightarrow> bool" where
  "snapshot b \<longleftrightarrow>
     (\<forall>i w w'. fst (ScanCall (db_client (scb_db b)) i w) = fst (ScanCall (db_client (scb_db b)) i w'))"

definition alone :: "'w lib \<Rightarrow> ('c, 'w) scan_builder \<Rightarrow> 'w st \<Rightarrow> nat \<Rightarrow> gval list outcome option" where
  "alone L b s i = map_option fst (scanSegment L b (segment_of i) s)"

definition thread_inv ::
    "'w lib \<Rightarrow> ('c, 'w) scan_builder \<Rightarrow> 'w st \<Rightarrow> nat \<Rightarrow> thread \<Rightarrow> bool" where
  "thread_inv L b s0 i t =
     (case t of
        Launched \<Rightarrow> True
      | Scanning input items \<Rightarrow> \<forall>s. map_option fst (scan_loop L b input items s) = alone L b s0 i
      | Returned r \<Rightarrow> alone L b s0 i = Some r
      | Finished r \<Rightarrow> alone L b s0 i = Some r)"

lemma scan_call_reply: "snapshot b \<Longrightarrow> fst (scan_call b i s) = fst (scan_call b i s')"
proof -
  have "fst (map_fail f r) = fst (map_fail f r')" if "fst r = fst r'" for f and r r' :: "page outcome \<times> 'w st"
    using that by (cases r; cases r'; cases "fst r") auto
  moreover assume "snapshot b"
  then have "fst (api (ScanCall (db_client (scb_db b))) i s) = fst (api (ScanCall (db_client (scb_db b))) i s')"
    by (simp add: snapshot_def api_def split: prod.splits) (metis fst_conv)
  ultimately show ?thesis by (simp add: scan_call_def)
qed

lemma scan_loop_indep:
  assumes "snapshot b"
  shows "map_option fst (scan_loop L b i acc s) = map_option fst (scan_loop L b i acc s')"
proof (cases "scan_loop L b i acc s")
  case None
  have "scan_loop L b i acc s' = None"
  proof (cases "scan_loop L b i acc s'")
    case (Some r)
    from sp.loop_state_indep[OF scan_call_reply[OF assms] this, of s] None show ?thesis by simp
  qed simp
  with None show ?thesis by simp
next
  case (Some r)
  from sp.loop_state_indep[OF scan_call_reply[OF assms] this, of s'] Some show ?thesis by auto
qed

lemma scan_page_loop:
  "scan_page L b input items s = (t, s1) \<Longrightarrow>
   (case t of
      Scanning j acc \<Rightarrow> scan_loop L b input items s = scan_loop L b j acc s1
    | Returned r \<Rightarrow> scan_loop L b input items s = Some (r, s1)
    | _ \<Rightarrow> False)"
  by (auto simp: scan_page_def scan_loop.simps[of L b input items s]
      split: prod.splits outcome.splits if_splits)

lemma thread_inv_step:
  assumes "snapshot b" and "par_step L b i p = Some p'"
    and "\<forall>j<length (pr_threads p). thread_inv L b s0 j (pr_threads p ! j)"
  shows "\<forall>j<length (pr_threads p'). thread_inv L b s0 j (pr_threads p' ! j)"
proof -
  have i: "i < length (pr_threads p)" and c: "pr_crash p = None"
    using assms(2) by (auto simp: par_step_def split: if_splits)
  have old: "thread_inv L b s0 i (pr_threads p ! i)" using assms(3) i by blast
  have "\<exists>t. thread_inv L b s0 i t \<and> pr_threads p' = (pr_threads p)[i := t]"
  proof (cases "pr_threads p ! i")
    case Launched
    have "map_option fst (scan_loop L b input [] s) = alone L b s0 i"
      if "Scan_buildInput L b (segment_of i) = Ok input" for input s
      by (subst scan_loop_indep[OF assms(1), of L input "[]" s s0]) (simp add: alone_def scanSegment_def that)
    then have "thread_inv L b s0 i (case Scan_buildInput L b (segment_of i) of
        Ok input \<Rightarrow> Scanning input [] | Fail e \<Rightarrow> Returned (Fail e) | Panic m \<Rightarrow> Returned (Panic m))"
      by (cases "Scan_buildInput L b (segment_of i)")
        (simp add: thread_inv_def, simp_all add: thread_inv_def alone_def scanSegment_def)
    with Launched assms(2) i c show ?thesis by (auto simp: par_step_def)
  next
    case (Scanning input items)
    obtain t s1 where t: "scan_page L b input items (pr_st p) = (t, s1)" by fastforce
    have loop: "map_option fst (scan_loop L b input items (pr_st p)) = alone L b s0 i"
      using old Scanning by (simp add: thread_inv_def)
    have "thread_inv L b s0 i t"
    proof (cases t)
      case (Scanning j acc)
      then have "map_option fst (scan_loop L b j acc s1) = alone L b s0 i"
        using scan_page_loop[OF t] loop by simp
      then have "map_option fst (scan_loop L b j acc s) = alone L b s0 i" for s
        by (subst scan_loop_indep[OF assms(1), of L j acc s s1])
      with Scanning show ?thesis by (simp add: thread_inv_def)
    qed (use scan_page_loop[OF t] loop in \<open>simp_all add: thread_inv_def\<close>)
    with t assms(2) Scanning i c show ?thesis by (auto simp: par_step_def)
  next
    case (Returned r)
    then have "thread_inv L b s0 i (Finished r)" using old by (simp add: thread_inv_def)
    moreover have "pr_threads p' = (pr_threads p)[i := Finished r] \<or>
        pr_threads p' = (pr_threads p)[i := pr_threads p ! i]"
      unfolding list_update_id using Returned assms(2) i c by (cases r) (auto simp: par_step_def)
    ultimately show ?thesis using old by blast
  next
    case (Finished r)
    with assms(2) i c show ?thesis by (simp add: par_step_def)
  qed
  then obtain t where "thread_inv L b s0 i t" "pr_threads p' = (pr_threads p)[i := t]" by blast
  then have "thread_inv L b s0 j (pr_threads p' ! j)" if "j < length (pr_threads p')" for j
    using that assms(3) by (cases "j = i") simp_all
  then show ?thesis by blast
qed

text \<open>
  The calls of a parallel scan in the order made, each with its goroutine, its request and the page that came
  back; and the calls of one goroutine as a chain, in which every request continues at the end of the page
  before it.
\<close>

type_synonym scan_log = "(nat \<times> scan_input \<times> page) list"

inductive call_run :: "('c, 'w) scan_builder \<Rightarrow> 'w st \<Rightarrow> scan_log \<Rightarrow> 'w st \<Rightarrow> bool"
  for b :: "('c, 'w) scan_builder" and s :: "'w st" where
  run_start: "call_run b s [] s"
| run_call: "call_run b s tr s1 \<Longrightarrow> scan_call b j s1 = (Ok p, s2) \<Longrightarrow> call_run b s (tr @ [(i, j, p)]) s2"

definition calls_of :: "nat \<Rightarrow> scan_log \<Rightarrow> (scan_input \<times> page) list" where
  "calls_of i tr = map snd (filter (\<lambda>c. fst c = i) tr)"

fun follows :: "scan_input option \<Rightarrow> (scan_input \<times> page) list \<Rightarrow> scan_input option \<Rightarrow> bool" where
  "follows n [] n' = (n' = n)"
| "follows n ((j, p) # cs) n' = (n = Some j \<and> follows (scan_next j p) cs n')"

lemma follows_append: "follows n (cs @ ds) n' \<longleftrightarrow> (\<exists>m. follows n cs m \<and> follows m ds n')"
  by (induction n cs n' rule: follows.induct) auto

lemma calls_of_simps [simp]:
  "calls_of i [] = []"
  "calls_of i (tr @ [(k, c)]) = (if k = i then calls_of i tr @ [c] else calls_of i tr)"
  by (simp_all add: calls_of_def)

text \<open>
  \<open>read_by L b i cs next items\<close>: the calls \<open>cs\<close> are a chain of pages of segment \<open>i\<close> from its
  first request to \<open>next\<close>, or to the last page, and these are their items.
\<close>

definition read_by ::
    "'w lib \<Rightarrow> ('c, 'w) scan_builder \<Rightarrow> nat \<Rightarrow> (scan_input \<times> page) list \<Rightarrow> scan_input option \<Rightarrow> gval list \<Rightarrow> bool" where
  "read_by L b i cs next items \<longleftrightarrow>
     (\<exists>input. Scan_buildInput L b (segment_of i) = Ok input \<and> follows (Some input) cs next) \<and>
     list_all2 (\<lambda>av x. unmarshal_item L (scb_type b) av = Ok x) (concat (map (pg_items \<circ> snd) cs)) items"

lemma read_by_page:
  assumes "read_by L b i cs (Some j) items" and "unmarshal_items L (scb_type b) (pg_items p) = Ok xs"
  shows "read_by L b i (cs @ [(j, p)]) (scan_next j p) (items @ xs)"
  using assms by (auto simp: read_by_def follows_append unmarshal_items_def traverse_Ok intro: list_all2_appendI)

fun thread_read ::
    "'w lib \<Rightarrow> ('c, 'w) scan_builder \<Rightarrow> nat \<Rightarrow> (scan_input \<times> page) list \<Rightarrow> thread \<Rightarrow> bool" where
  "thread_read L b i cs Launched = (cs = [])"
| "thread_read L b i cs (Scanning j items) = read_by L b i cs (Some j) items"
| "thread_read L b i cs (Returned (Ok xs)) = read_by L b i cs None xs"
| "thread_read L b i cs (Finished (Ok xs)) = read_by L b i cs None xs"
| "thread_read L b i cs t = False"

fun succeeding :: "thread \<Rightarrow> bool" where
  "succeeding (Returned r) = (\<exists>xs. r = Ok xs)"
| "succeeding (Finished r) = (\<exists>xs. r = Ok xs)"
| "succeeding t = True"

definition log_inv :: "'w lib \<Rightarrow> ('c, 'w) scan_builder \<Rightarrow> 'w st \<Rightarrow> 'w par \<Rightarrow> bool" where
  "log_inv L b s p \<longleftrightarrow>
     (pr_crash p = None \<longrightarrow> list_all succeeding (pr_threads p) \<longrightarrow>
       (\<exists>tr. call_run b s tr (pr_st p) \<and> fst ` set tr \<subseteq> {..<length (pr_threads p)} \<and>
         (\<forall>i<length (pr_threads p). thread_read L b i (calls_of i tr) (pr_threads p ! i))))"

lemma log_inv_update:
  assumes "log_inv L b s p" and "pr_crash p = None" and "i < length (pr_threads p)"
    and "pr_threads p' = (pr_threads p)[i := t]" and "succeeding (pr_threads p ! i)"
    and "\<And>tr. call_run b s tr (pr_st p) \<Longrightarrow> thread_read L b i (calls_of i tr) (pr_threads p ! i) \<Longrightarrow> succeeding t \<Longrightarrow>
      \<exists>cs. call_run b s (tr @ map (Pair i) cs) (pr_st p') \<and> thread_read L b i (calls_of i tr @ cs) t"
  shows "log_inv L b s p'"
  unfolding log_inv_def
proof (intro impI)
  assume ok: "list_all succeeding (pr_threads p')"
  then have t: "succeeding t" using assms(3,4) by (auto simp: list_all_length)
  have "list_all succeeding (pr_threads p)"
    using ok assms(3-5) by (auto simp: list_all_length nth_list_update) metis
  then obtain tr where tr: "call_run b s tr (pr_st p)" "fst ` set tr \<subseteq> {..<length (pr_threads p)}"
      "\<forall>j<length (pr_threads p). thread_read L b j (calls_of j tr) (pr_threads p ! j)"
    using assms(1,2) by (auto simp: log_inv_def)
  obtain cs where cs: "call_run b s (tr @ map (Pair i) cs) (pr_st p')" "thread_read L b i (calls_of i tr @ cs) t"
    using assms(6)[OF tr(1) _ t] tr(3) assms(3) by blast
  have calls: "calls_of j (tr @ map (Pair i) cs) = (if j = i then calls_of j tr @ cs else calls_of j tr)" for j
    by (simp add: calls_of_def filter_map comp_def)
  have "thread_read L b j (calls_of j (tr @ map (Pair i) cs)) (pr_threads p' ! j)" if "j < length (pr_threads p')" for j
    using that tr(3) cs(2) assms(3,4) by (auto simp: calls nth_list_update)
  moreover have "fst ` set (tr @ map (Pair i) cs) \<subseteq> {..<length (pr_threads p')}"
    using tr(2) assms(3,4) by auto
  ultimately show "\<exists>tr. call_run b s tr (pr_st p') \<and> fst ` set tr \<subseteq> {..<length (pr_threads p')} \<and>
      (\<forall>j<length (pr_threads p'). thread_read L b j (calls_of j tr) (pr_threads p' ! j))"
    using cs(1) by blast
qed

lemma log_inv_step:
  assumes "par_step L b i p = Some p'" and "log_inv L b s p"
  shows "log_inv L b s p'"
proof -
  have i: "i < length (pr_threads p)" and c: "pr_crash p = None"
    using assms(1) by (auto simp: par_step_def split: if_splits)
  show ?thesis
  proof (cases "pr_threads p ! i")
    case Launched
    with assms(1) i c have p': "pr_threads p' = (pr_threads p)[i := (case Scan_buildInput L b (segment_of i) of
            Ok input \<Rightarrow> Scanning input [] | Fail e \<Rightarrow> Returned (Fail e) | Panic m \<Rightarrow> Returned (Panic m))]"
        "pr_st p' = pr_st p" by (auto simp: par_step_def)
    show ?thesis
      by (rule log_inv_update[OF assms(2) c i p'(1)])
        (use Launched p'(2) in \<open>auto simp: read_by_def intro!: exI[of _ "[]"] split: outcome.splits\<close>)
  next
    case (Scanning input items)
    obtain t s1 where t: "scan_page L b input items (pr_st p) = (t, s1)" by fastforce
    with assms(1) Scanning i c have p': "pr_threads p' = (pr_threads p)[i := t]" "pr_st p' = s1"
      by (auto simp: par_step_def)
    show ?thesis
    proof (rule log_inv_update[OF assms(2) c i p'(1)])
      fix tr
      assume run: "call_run b s tr (pr_st p)" and read: "thread_read L b i (calls_of i tr) (pr_threads p ! i)"
        and "succeeding t"
      then obtain out xs where call: "scan_call b input (pr_st p) = (Ok out, s1)"
          "unmarshal_items L (scb_type b) (pg_items out) = Ok xs"
          "t = (case scan_next input out of None \<Rightarrow> Returned (Ok (items @ xs)) | Some j \<Rightarrow> Scanning j (items @ xs))"
        using t by (auto simp: scan_page_def scan_next_def split: prod.splits outcome.splits if_splits)
      have "read_by L b i (calls_of i tr @ [(input, out)]) (scan_next input out) (items @ xs)"
        using read_by_page[OF _ call(2)] read Scanning by simp
      then have "thread_read L b i (calls_of i tr @ [(input, out)]) t"
        using call(3) by (cases "scan_next input out") simp_all
      with run_call[OF run call(1), of i] p'(2)
      show "\<exists>cs. call_run b s (tr @ map (Pair i) cs) (pr_st p') \<and> thread_read L b i (calls_of i tr @ cs) t"
        by (intro exI[of _ "[(input, out)]"]) simp
    qed (simp add: Scanning)
  next
    case (Returned r)
    show ?thesis
    proof (cases r)
      case (Ok xs)
      with assms(1) Returned i c have p': "pr_threads p' = (pr_threads p)[i := Finished (Ok xs)]" "pr_st p' = pr_st p"
        by (auto simp: par_step_def)
      show ?thesis
        by (rule log_inv_update[OF assms(2) c i p'(1)]) (use Returned Ok p'(2) in \<open>auto intro!: exI[of _ "[]"]\<close>)
    next
      case (Fail e)
      with assms(1) Returned i c have "pr_threads p' = (pr_threads p)[i := Finished (Fail e)]" by (auto simp: par_step_def)
      then have "\<not> list_all succeeding (pr_threads p')" using i by (auto simp: list_all_length)
      then show ?thesis by (simp add: log_inv_def)
    next
      case (Panic m)
      with assms(1) Returned i c have "pr_crash p' = Some m" by (auto simp: par_step_def)
      then show ?thesis by (simp add: log_inv_def)
    qed
  next
    case (Finished r)
    with assms(1) i c show ?thesis by (simp add: par_step_def)
  qed
qed

text \<open>A finished parallel scan: its threads' results, and what became of them.\<close>

lemma allParallel_results:
  assumes "allParallel L b sched s = Some (r, s')" and "\<forall>m. r \<noteq> Panic m"
  shows "\<exists>ts. length ts = nat (sint (scb_total b)) \<and> list_all (\<lambda>t. \<exists>r. t = Finished r \<and> (\<forall>m. r \<noteq> Panic m)) ts \<and>
    (snapshot b \<longrightarrow> (\<forall>j<length ts. thread_inv L b s j (ts ! j))) \<and>
    (case r of
       Ok xs \<Rightarrow> mset xs = sum_list (map merged_items ts) \<and> (\<forall>e. Finished (Fail e) \<notin> set ts)
     | Fail e \<Rightarrow> Finished (Fail e) \<in> set ts
     | Panic m \<Rightarrow> False) \<and>
    (\<forall>xs. r = Ok xs \<longrightarrow> (\<exists>tr. call_run b s tr s' \<and> fst ` set tr \<subseteq> {..<length ts} \<and>
      (\<forall>j<length ts. thread_read L b j (calls_of j tr) (ts ! j))))"
proof -
  obtain p where run: "par_run L b sched (par_init b s) = Some p" and res: "par_result p = Some (r, s')"
    using assms(1) by (auto simp: allParallel_def bind_eq_Some_conv)
  let ?n = "nat (sint (scb_total b))"
  have inv: "merge_inv p \<and> length (pr_threads p) = ?n"
    by (rule par_run_keeps[OF run, where I = "\<lambda>p. merge_inv p \<and> length (pr_threads p) = ?n"])
      (simp add: merge_inv_init, simp add: par_init_def, metis merge_inv_step)
  have thr: "\<forall>j<length (pr_threads p). thread_inv L b s j (pr_threads p ! j)" if "snapshot b"
    by (rule par_run_keeps[OF run, where I = "\<lambda>p. \<forall>j<length (pr_threads p). thread_inv L b s j (pr_threads p ! j)"])
      (simp add: par_init_def thread_inv_def, rule thread_inv_step[OF that])
  have "log_inv L b s p"
  proof (rule par_run_keeps[OF run, where I = "log_inv L b s"])
    show "log_inv L b s (par_init b s)" using run_start[of b s]
      unfolding log_inv_def by (intro impI exI[of _ "[]"]) (simp add: par_init_def)
  qed (rule log_inv_step)
  have fin: "pr_crash p = None" "list_all (\<lambda>t. case t of Finished r \<Rightarrow> True | _ \<Rightarrow> False) (pr_threads p)"
    "r = (case pr_err p of Some e \<Rightarrow> Fail e | None \<Rightarrow> Ok (pr_items p))"
    using res assms(2) by (auto simp: par_result_def split: option.splits if_splits)
  have "list_all (\<lambda>t. \<exists>r. t = Finished r \<and> (\<forall>m. r \<noteq> Panic m)) (pr_threads p)"
    unfolding list_all_iff
  proof
    fix t
    assume t: "t \<in> set (pr_threads p)"
    then have "case t of Finished r \<Rightarrow> True | _ \<Rightarrow> False" using fin(2) by (simp only: list_all_iff)
    then obtain q where "t = Finished q" by (auto split: thread.splits)
    moreover from this t inv have "\<forall>m. q \<noteq> Panic m" by (auto simp: merge_inv_def)
    ultimately show "\<exists>r. t = Finished r \<and> (\<forall>m. r \<noteq> Panic m)" by blast
  qed
  note ended = this
  have merged: "case r of
       Ok xs \<Rightarrow> mset xs = sum_list (map merged_items (pr_threads p)) \<and> (\<forall>e. Finished (Fail e) \<notin> set (pr_threads p))
     | Fail e \<Rightarrow> Finished (Fail e) \<in> set (pr_threads p)
     | Panic m \<Rightarrow> False"
    using inv fin(3) unfolding merge_inv_def by (auto split: option.splits)
  have "\<exists>tr. call_run b s tr s' \<and> fst ` set tr \<subseteq> {..<length (pr_threads p)} \<and>
      (\<forall>j<length (pr_threads p). thread_read L b j (calls_of j tr) (pr_threads p ! j))" if "r = Ok xs" for xs
  proof -
    have "succeeding t" if t: "t \<in> set (pr_threads p)" for t
    proof -
      obtain q where q: "t = Finished q" "\<forall>m. q \<noteq> Panic m" using ended t by (auto simp: list_all_iff)
      moreover have "q \<noteq> Fail e" for e using merged q(1) t \<open>r = Ok xs\<close> by auto
      ultimately show ?thesis by (cases q) auto
    qed
    moreover have "s' = pr_st p" using res fin(1) by (auto simp: par_result_def split: if_splits)
    ultimately show ?thesis using \<open>log_inv L b s p\<close> fin(1) by (simp add: log_inv_def list_all_iff)
  qed
  with inv thr ended merged show ?thesis by (intro exI[of _ "pr_threads p"]) simp
qed

lemma finished_results:
  assumes "list_all (\<lambda>t. \<exists>r. t = Finished r \<and> (\<forall>m. r \<noteq> Panic m)) ts" and "\<forall>e. Finished (Fail e) \<notin> set ts"
  shows "\<exists>res. ts = map (\<lambda>xs. Finished (Ok xs)) res \<and> sum_list (map merged_items ts) = sum_list (map mset res)"
  using assms
proof (induction ts)
  case Nil
  then show ?case by simp
next
  case (Cons t ts)
  then obtain res where res: "ts = map (\<lambda>xs. Finished (Ok xs)) res"
      "sum_list (map merged_items ts) = sum_list (map mset res)"
    by auto
  obtain r where "t = Finished r" "\<forall>m. r \<noteq> Panic m" using Cons.prems(1) by auto
  moreover from this Cons.prems(2) obtain xs where "r = Ok xs" by (cases r) auto
  ultimately show ?case using res by (intro exI[of _ "xs # res"]) simp
qed

section \<open>Properties\<close>

text \<open>
  C7: A parallel scan that succeeds has read every segment to its end and lost or doubled nothing: the calls
  it made, one after the other, each on what the one before left, belong to its segments; the calls of each
  segment are a chain of pages that begins with the segment's request, continues each page at its end, and
  ends with the last page; and the items returned are those of all these pages, each exactly once, whatever
  the order in which the goroutines' calls and locked sections interleave and whatever the service answers.
  Where replies depend on the request only (a snapshot), these are the items of the segments' own scans.
\<close>

theorem parallel_scan_is_union_of_segments:
  assumes "allParallel L b sched s = Some (Ok xs, s')"
  shows "\<exists>tr res. call_run b s tr s' \<and> fst ` set tr \<subseteq> {..<length res} \<and>
    length res = nat (sint (scb_total b)) \<and>
    (\<forall>i<length res. read_by L b i (calls_of i tr) None (res ! i)) \<and>
    mset xs = sum_list (map mset res) \<and>
    (snapshot b \<longrightarrow> (\<forall>i<length res. \<exists>s1. scanSegment L b (segment_of i) s = Some (Ok (res ! i), s1)))"
proof -
  obtain ts tr where ts: "length ts = nat (sint (scb_total b))"
      "list_all (\<lambda>t. \<exists>r. t = Finished r \<and> (\<forall>m. r \<noteq> Panic m)) ts"
      "snapshot b \<longrightarrow> (\<forall>j<length ts. thread_inv L b s j (ts ! j))" "mset xs = sum_list (map merged_items ts)"
      "\<forall>e. Finished (Fail e) \<notin> set ts"
    and tr: "call_run b s tr s'" "fst ` set tr \<subseteq> {..<length ts}"
      "\<forall>j<length ts. thread_read L b j (calls_of j tr) (ts ! j)"
    using allParallel_results[OF assms] by auto
  obtain res where res: "ts = map (\<lambda>xs. Finished (Ok xs)) res"
      "sum_list (map merged_items ts) = sum_list (map mset res)"
    using finished_results[OF ts(2,5)] by blast
  have "\<exists>s1. scanSegment L b (segment_of i) s = Some (Ok (res ! i), s1)" if "snapshot b" "i < length res" for i
    using ts(3) that res(1) by (auto simp: thread_inv_def alone_def)
  with ts tr res show ?thesis by (intro exI[of _ tr] exI[of _ res]) simp
qed

text \<open>
  C28: On a snapshot of the table, a parallel scan that does not panic reports an error exactly when one of
  its segments' own scans fails, and the error it reports is that of such a segment: no schedule makes
  the scan succeed with the other segments' items.
\<close>

theorem parallel_scan_errors:
  assumes "snapshot b" and "allParallel L b sched s = Some (r, s')" and "\<forall>m. r \<noteq> Panic m"
  shows "((\<exists>e. r = Fail e) \<longleftrightarrow>
      (\<exists>i<nat (sint (scb_total b)). \<exists>e s1. scanSegment L b (segment_of i) s = Some (Fail e, s1))) \<and>
    (\<forall>e. r = Fail e \<longrightarrow>
      (\<exists>i<nat (sint (scb_total b)). \<exists>s1. scanSegment L b (segment_of i) s = Some (Fail e, s1)))"
proof -
  obtain ts where ts: "length ts = nat (sint (scb_total b))"
      "list_all (\<lambda>t. \<exists>r. t = Finished r \<and> (\<forall>m. r \<noteq> Panic m)) ts"
      "\<forall>j<length ts. thread_inv L b s j (ts ! j)"
      and r: "case r of
       Ok xs \<Rightarrow> mset xs = sum_list (map merged_items ts) \<and> (\<forall>e. Finished (Fail e) \<notin> set ts)
     | Fail e \<Rightarrow> Finished (Fail e) \<in> set ts
     | Panic m \<Rightarrow> False"
    using allParallel_results[OF assms(2,3)] assms(1) by auto
  have own: "\<exists>i<nat (sint (scb_total b)). \<exists>s1. scanSegment L b (segment_of i) s = Some (Fail e, s1)"
    if e: "r = Fail e" for e
  proof -
    obtain j where "j < length ts" "ts ! j = Finished (Fail e)" using r e by (auto simp: in_set_conv_nth)
    with ts(1,3) show ?thesis by (force simp: thread_inv_def alone_def)
  qed
  have fails: "\<exists>e'. r = Fail e'"
    if i: "i < nat (sint (scb_total b))" "scanSegment L b (segment_of i) s = Some (Fail e, s1)" for i e s1
  proof -
    have "ts ! i = Finished (Fail e)"
      using ts i by (fastforce simp: list_all_length thread_inv_def alone_def)
    then have "Finished (Fail e) \<in> set ts" using i(1) ts(1) by (metis nth_mem)
    with r show ?thesis by (cases r) auto
  qed
  show ?thesis
  proof (intro conjI iffI allI impI)
    assume "\<exists>e. r = Fail e"
    then show "\<exists>i<nat (sint (scb_total b)). \<exists>e s1. scanSegment L b (segment_of i) s = Some (Fail e, s1)"
      using own by metis
  next
    assume "\<exists>i<nat (sint (scb_total b)). \<exists>e s1. scanSegment L b (segment_of i) s = Some (Fail e, s1)"
    then show "\<exists>e. r = Fail e" using fails by metis
  next
    fix e
    assume "r = Fail e"
    then show "\<exists>i<nat (sint (scb_total b)). \<exists>s1. scanSegment L b (segment_of i) s = Some (Fail e, s1)" by (rule own)
  qed
qed

text \<open>No deadlock: as long as the scan is not done, some goroutine can take a turn.\<close>

lemma par_progress:
  assumes "par_run L b sched (par_init b s) = Some p" and "par_result p = None"
  shows "\<exists>i p'. par_step L b i p = Some p'"
proof -
  have c: "pr_crash p = None" using assms(2) by (auto simp: par_result_def split: option.splits)
  obtain t where "t \<in> set (pr_threads p)" and nf: "\<And>r. t \<noteq> Finished r"
    using assms(2) c by (auto simp: par_result_def list_all_iff split: if_splits thread.splits)
  then obtain i where i: "i < length (pr_threads p)" "pr_threads p ! i = t" by (auto simp: in_set_conv_nth)
  with c nf have "par_step L b i p \<noteq> None"
    by (cases t) (auto simp: par_step_def split: outcome.split prod.split)
  then show ?thesis by blast
qed

text \<open>
  The segment numbers survive the conversion to 32 bits: every request of segment \<open>i\<close> of
  \<open>n\<close> carries exactly \<open>i\<close> and \<open>n\<close>; with at most one segment it carries neither, and a
  segment count above the 32-bit range is an error.
\<close>

theorem segment_numbers_exact:
  assumes "0 \<le> sint segment" and "sint segment < sint (scb_total b)"
    and "Scan_buildInput L b segment = r" and "scb_filters b = []"
  shows "(1 < sint (scb_total b) \<and> sint (scb_total b) \<le> 2 ^ 31 - 1 \<longrightarrow>
      (\<exists>i g n. r = Ok i \<and> si_segment i = Some g \<and> si_total i = Some n \<and>
         sint g = sint segment \<and> sint n = sint (scb_total b))) \<and>
    (sint (scb_total b) \<le> 1 \<longrightarrow> (\<exists>i. r = Ok i \<and> si_segment i = None \<and> si_total i = None)) \<and>
    (sint (scb_total b) > 2 ^ 31 - 1 \<longrightarrow> (\<exists>e. r = Fail e))"
  using assms sint_ucast_small[of segment] sint_ucast_small[of "scb_total b"]
  by (auto simp: Scan_buildInput_def Let_def max_int32_def word_sless_alt)

section \<open>Witnesses\<close>

text \<open>A table with one row per segment; with \<open>bad\<close>, segment 1 cannot be read.\<close>

definition snap_reply :: "bool \<Rightarrow> scan_input \<Rightarrow> go_err + page" where
  "snap_reply bad i =
     (if si_segment i = Some 0 then Inr \<lparr>pg_items = [sample_row ''open''], pg_last = fmempty\<rparr>
      else if bad then Inl (OtherErr ''throttled'')
      else Inr \<lparr>pg_items = [sample_row ''paid''], pg_last = fmempty\<rparr>)"

definition snap_scan :: "bool \<Rightarrow> (unit, sworld) scan_builder" where
  "snap_scan bad =
     Parallel 2 (Scan order_type (sample_db\<lparr>db_client := sample_client\<lparr>ScanCall := \<lambda>i w. (snap_reply bad i, w)\<rparr>\<rparr>))"

definition scan_st :: "sworld st" where
  "scan_st = \<lparr>mem = (\<lambda>_. VStr []), world = empty_world\<rparr>"

definition snap_input :: "32 word \<Rightarrow> scan_input" where
  "snap_input g = \<lparr>si_table = ''t'', si_filter = None, si_limit = None, si_segment = Some g,
     si_total = Some 2, si_start = fmempty\<rparr>"

lemma snap_scan_fields [simp]:
  "scb_type (snap_scan bad) = order_type" "scb_total (snap_scan bad) = 2" "scb_filters (snap_scan bad) = []"
  by (simp_all add: snap_scan_def Parallel_def Scan_def)

lemma snap_scan_snapshot: "snapshot (snap_scan bad)"
  by (simp add: snapshot_def snap_scan_def Parallel_def Scan_def)

lemma snap_build:
  "Scan_buildInput sample_lib (snap_scan bad) (segment_of 0) = Ok (snap_input 0)"
  "Scan_buildInput sample_lib (snap_scan bad) (segment_of (Suc 0)) = Ok (snap_input 1)"
  by (simp_all add: Scan_buildInput_def snap_scan_def Parallel_def Scan_def Let_def word_sless_alt
      max_int32_def segment_of_def snap_input_def)

lemma snap_call:
  "scan_call (snap_scan bad) (snap_input 0) s = (Ok \<lparr>pg_items = [sample_row ''open''], pg_last = fmempty\<rparr>, s)"
  "scan_call (snap_scan True) (snap_input 1) s = (Fail (Wrapped ''godynamo: scan Order'' (OtherErr ''throttled'')), s)"
  "scan_call (snap_scan False) (snap_input 1) s = (Ok \<lparr>pg_items = [sample_row ''paid''], pg_last = fmempty\<rparr>, s)"
  by (simp_all add: scan_call_def api_def snap_scan_def Parallel_def Scan_def snap_reply_def snap_input_def)

lemma snap_page:
  "scan_page sample_lib (snap_scan bad) (snap_input 0) [] s = (Returned (Ok [row_value ''open'']), s)"
  "scan_page sample_lib (snap_scan True) (snap_input 1) [] s =
     (Returned (Fail (Wrapped ''godynamo: scan Order'' (OtherErr ''throttled''))), s)"
  "scan_page sample_lib (snap_scan False) (snap_input 1) [] s = (Returned (Ok [row_value ''paid'']), s)"
  by (simp_all add: scan_page_def snap_call unmarshal_items_def)

lemma snap_parallel:
  "allParallel sample_lib (snap_scan False) [0, 1, 1, 0, 1, 0] scan_st =
     Some (Ok [row_value ''paid'', row_value ''open''], scan_st)"
  "allParallel sample_lib (snap_scan True) [0, 1, 1, 0, 0, 1] scan_st =
     Some (Fail (Wrapped ''godynamo: scan Order'' (OtherErr ''throttled'')), scan_st)"
  by (simp_all add: allParallel_def par_init_def par_step_def par_result_def snap_build snap_page
      numeral_2_eq_2)

theorem parallel_scan_is_union_of_segments_witness:
  "\<exists>tr res. call_run (snap_scan False) scan_st tr scan_st \<and> length res = 2 \<and>
    read_by sample_lib (snap_scan False) 1 (calls_of 1 tr) None (res ! 1) \<and>
    mset [row_value ''paid'', row_value ''open''] = sum_list (map mset res) \<and>
    (\<exists>s1. scanSegment sample_lib (snap_scan False) (segment_of 1) scan_st = Some (Ok (res ! 1), s1))"
proof -
  obtain tr res where "call_run (snap_scan False) scan_st tr scan_st" "length res = 2"
      "\<forall>i<length res. read_by sample_lib (snap_scan False) i (calls_of i tr) None (res ! i)"
      "\<forall>i<length res. \<exists>s1. scanSegment sample_lib (snap_scan False) (segment_of i) scan_st = Some (Ok (res ! i), s1)"
      "mset [row_value ''paid'', row_value ''open''] = sum_list (map mset res)"
    using parallel_scan_is_union_of_segments[OF snap_parallel(1)] snap_scan_snapshot by auto
  then show ?thesis by (intro exI[of _ tr] exI[of _ res]) simp
qed

theorem parallel_scan_errors_witness:
  "\<exists>i<2. \<exists>s1. scanSegment sample_lib (snap_scan True) (segment_of i) scan_st =
    Some (Fail (Wrapped ''godynamo: scan Order'' (OtherErr ''throttled'')), s1)"
  using parallel_scan_errors[OF snap_scan_snapshot snap_parallel(2)] by simp

theorem segment_numbers_exact_witness:
  "\<exists>i g. Scan_buildInput sample_lib (Parallel 7 (Scan order_type sample_db)) 5 = Ok i \<and>
    si_segment i = Some g \<and> sint g = 5"
  using segment_numbers_exact[of 5 "Parallel 7 (Scan order_type sample_db)" sample_lib, OF _ _ refl]
  by (auto simp: Parallel_def Scan_def)

end
