(* ===== verification/Scan_Progress.thy ===== *)
theory Scan_Progress
  imports Scan
begin

text \<open>
  The parallel scan ends: on a snapshot of the table every goroutine has a fixed number of turns, so
  a schedule has a bounded length, and until the scan is done some goroutine can move.
\<close>

section \<open>The turns a goroutine has left\<close>

inductive turns ::
    "'w lib \<Rightarrow> ('c, 'w) scan_builder \<Rightarrow> 'w st \<Rightarrow> nat \<Rightarrow> thread \<Rightarrow> nat \<Rightarrow> bool"
  for L :: "'w lib" and b :: "('c, 'w) scan_builder" and s :: "'w st" and i :: nat where
  turns_finished: "turns L b s i (Finished r) 0"
| turns_returned: "turns L b s i (Returned r) (Suc 0)"
| turns_scanning: "turns L b s i t n \<Longrightarrow> scan_page L b input items s = (t, s1) \<Longrightarrow>
    turns L b s i (Scanning input items) (Suc n)"
| turns_launched: "Scan_buildInput L b (segment_of i) = Ok input \<Longrightarrow> turns L b s i (Scanning input []) n \<Longrightarrow>
    turns L b s i Launched (Suc n)"
| turns_refused: "\<forall>input. Scan_buildInput L b (segment_of i) \<noteq> Ok input \<Longrightarrow>
    turns L b s i Launched (Suc (Suc 0))"

inductive_cases turns_elims:
  "turns L b s i (Finished r) n" "turns L b s i (Returned r) n"
  "turns L b s i (Scanning input items) n" "turns L b s i Launched n"

lemma scan_page_reply:
  assumes "snapshot b"
  shows "fst (scan_page L b input items s) = fst (scan_page L b input items s')"
  using scan_call_reply[OF assms, of input s s']
  by (cases "scan_call b input s"; cases "scan_call b input s'")
    (auto simp: scan_page_def split: outcome.split)

lemma turns_scan_page:
  assumes "snapshot b" and "scan_page L b input items s1 = (t, s2)" and "turns L b s i t n"
  shows "turns L b s i (Scanning input items) (Suc n)"
proof -
  have "fst (scan_page L b input items s) = t" using scan_page_reply[OF assms(1), of L input items s s1] assms(2) by simp
  then show ?thesis using assms(3) by (intro turns_scanning[of _ _ _ _ t]) (auto intro: prod_eqI)
qed

text \<open>A scan of one segment that returns bounds the turns of its goroutine.\<close>

lemma loop_turns:
  assumes snap: "snapshot b" and "scan_loop L b input items s1 = Some r"
  shows "\<exists>n. turns L b s i (Scanning input items) n"
  using assms(2)
proof (rule sp.loop_least[where P = "\<lambda>input items s1 r. \<exists>n. turns L b s i (Scanning input items) n"], goal_cases)
  case (1 input items s1 p s2 xs)
  then have "scan_page L b input items s1 = (Returned (Ok (items @ xs)), s2)"
    by (simp add: scan_page_def unmarshal_items_def scan_next_def split: if_splits)
  from turns_scan_page[OF snap this turns_returned] show ?case by blast
next
  case (2 input items s1 p s2 xs j r)
  then have "scan_page L b input items s1 = (Scanning j (items @ xs), s2)"
    by (auto simp: scan_page_def unmarshal_items_def scan_next_def split: if_splits)
  with turns_scan_page[OF snap this] 2(4) show ?case by blast
next
  case (3 input items s1 p s2 r)
  then have "scan_page L b input items s1 = (Returned r, s2)"
    by (auto simp: scan_page_def unmarshal_items_def split: outcome.split)
  from turns_scan_page[OF snap this turns_returned] show ?case by blast
next
  case (4 input items s1 e s2)
  then have "scan_page L b input items s1 = (Returned (Fail e), s2)" by (simp add: scan_page_def)
  from turns_scan_page[OF snap this turns_returned] show ?case by blast
next
  case (5 input items s1 m s2)
  then have "scan_page L b input items s1 = (Returned (Panic m), s2)" by (simp add: scan_page_def)
  from turns_scan_page[OF snap this turns_returned] show ?case by blast
qed

lemma launched_turns:
  assumes "snapshot b" and "scanSegment L b (segment_of i) s \<noteq> None"
  shows "\<exists>n. turns L b s i Launched n"
proof (cases "Scan_buildInput L b (segment_of i)")
  case (Ok input)
  with assms(2) obtain r where "scan_loop L b input [] s = Some r" by (auto simp: scanSegment_def)
  from loop_turns[OF assms(1) this, of s i] obtain n where "turns L b s i (Scanning input []) n" by blast
  then show ?thesis using turns_launched[OF Ok] by blast
qed (use turns_refused[of L b i s] in auto)

text \<open>A turn uses one of them up.\<close>

lemma turn_taken:
  assumes "snapshot b" and "par_step L b i p = Some p'" and "turns L b s i (pr_threads p ! i) n"
  shows "\<exists>m. n = Suc m \<and> (pr_crash p' = None \<longrightarrow> (\<exists>t. pr_threads p' = (pr_threads p)[i := t] \<and> turns L b s i t m))"
proof -
  have i: "i < length (pr_threads p)" and c: "pr_crash p = None"
    using assms(2) by (auto simp: par_step_def split: if_splits)
  show ?thesis
  proof (cases "pr_threads p ! i")
    case Launched
    show ?thesis
    proof (cases "Scan_buildInput L b (segment_of i)")
      case (Ok input)
      with assms(2,3) Launched i c show ?thesis
        by (auto simp: par_step_def elim!: turns_elims(4) intro!: exI[of _ "Scanning input []"])
    next
      case (Fail e)
      with assms(2,3) Launched i c show ?thesis
        by (auto simp: par_step_def elim!: turns_elims(4) intro!: exI[of _ "Returned (Fail e)"] turns_returned)
    next
      case (Panic m)
      with assms(2,3) Launched i c show ?thesis
        by (auto simp: par_step_def elim!: turns_elims(4) intro!: exI[of _ "Returned (Panic m)"] turns_returned)
    qed
  next
    case (Scanning input items)
    obtain t s1 where t: "scan_page L b input items (pr_st p) = (t, s1)" by fastforce
    obtain m t' s2 where m: "n = Suc m" "turns L b s i t' m" "scan_page L b input items s = (t', s2)"
      using assms(3) Scanning by (auto elim: turns_elims(3))
    have "t' = t" using scan_page_reply[OF assms(1), of L input items s "pr_st p"] t m(3) by simp
    with t m assms(2) Scanning i c show ?thesis by (auto simp: par_step_def)
  next
    case (Returned r)
    with assms(2,3) i c show ?thesis
      by (cases r) (auto simp: par_step_def elim!: turns_elims(2) intro!: exI[of _ "Finished r"] turns_finished)
  next
    case (Finished r)
    with assms(2) i c show ?thesis by (simp add: par_step_def)
  qed
qed

lemma run_length:
  assumes "snapshot b" and "par_run L b sched p = Some p'" and "length ns = length (pr_threads p)"
    and "\<forall>j<length ns. turns L b s j (pr_threads p ! j) (ns ! j)"
  shows "length sched \<le> sum_list ns"
  using assms(2-4)
proof (induction sched arbitrary: p ns)
  case (Cons i sched)
  then obtain q where q: "par_step L b i p = Some q" "par_run L b sched q = Some p'"
    by (auto simp: bind_eq_Some_conv)
  have i: "i < length ns" using q(1) Cons.prems(2) by (auto simp: par_step_def split: if_splits)
  obtain m where m: "ns ! i = Suc m"
      "pr_crash q = None \<longrightarrow> (\<exists>t. pr_threads q = (pr_threads p)[i := t] \<and> turns L b s i t m)"
    using turn_taken[OF assms(1) q(1)] Cons.prems(3) i by blast
  have big: "Suc m \<le> sum_list ns" using m(1) i elem_le_sum_list[of i ns] by simp
  show ?case
  proof (cases "pr_crash q")
    case (Some c)
    then have "sched = []" using q(2) by (cases sched) (auto simp: par_step_def)
    with big show ?thesis by simp
  next
    case None
    with m(2) obtain t where t: "pr_threads q = (pr_threads p)[i := t]" "turns L b s i t m" by blast
    have "length sched \<le> sum_list (ns[i := m])"
      using Cons.IH[OF q(2), of "ns[i := m]"] Cons.prems(2,3) t i by (auto simp: nth_list_update)
    also have "\<dots> = sum_list ns - 1" using sum_list_update[OF i, of m] m(1) big by simp
    finally show ?thesis using big by simp
  qed
qed simp

section \<open>Properties\<close>

text \<open>
  C31: A parallel scan over a snapshot ends under every scheduler: when each segment's own scan
  returns, the schedules have a bounded length, and as long as there is no result some goroutine can
  take a turn. (No fairness is needed, and no schedule deadlocks.)
\<close>

theorem parallel_scan_terminates:
  assumes "snapshot b" and "\<forall>i<nat (sint (scb_total b)). scanSegment L b (segment_of i) s \<noteq> None"
  shows "\<exists>bound. \<forall>sched p. par_run L b sched (par_init b s) = Some p \<longrightarrow>
    length sched \<le> bound \<and> (par_result p = None \<longrightarrow> (\<exists>i p'. par_step L b i p = Some p'))"
proof -
  let ?n = "nat (sint (scb_total b))"
  have "\<forall>j<?n. \<exists>m. turns L b s j Launched m" using launched_turns[OF assms(1)] assms(2) by blast
  then obtain f where f: "\<forall>j<?n. turns L b s j Launched (f j)" by metis
  have "length sched \<le> sum_list (map f [0..<?n])" if "par_run L b sched (par_init b s) = Some p" for sched p
    by (rule run_length[OF assms(1) that, of _ s]) (use f in \<open>simp_all add: par_init_def\<close>)
  then show ?thesis using par_progress by blast
qed

section \<open>Witnesses\<close>

theorem parallel_scan_terminates_witness:
  "\<exists>bound. \<forall>sched p. par_run sample_lib (snap_scan False) sched (par_init (snap_scan False) scan_st) = Some p \<longrightarrow>
    length sched \<le> bound \<and> (par_result p = None \<longrightarrow> (\<exists>i p'. par_step sample_lib (snap_scan False) i p = Some p'))"
proof (rule parallel_scan_terminates[OF snap_scan_snapshot])
  have "scanSegment sample_lib (snap_scan False) (segment_of i) scan_st \<noteq> None" if "i = 0 \<or> i = Suc 0" for i
    using that by (auto simp: scanSegment_def snap_build scan_loop.simps snap_call unmarshal_items_def)
  then show "\<forall>i<nat (sint (scb_total (snap_scan False))).
      scanSegment sample_lib (snap_scan False) (segment_of i) scan_st \<noteq> None"
    by (auto simp: less_2_cases_iff)
qed

end
