(* ===== verification/Statement.thy ===== *)
theory Statement
  imports Client_DB Paging
begin

text \<open>
  \<open>statement.go\<close>: the PartiQL builder. A parameter that does not marshal is remembered, and
  the terminal methods return its error. The continuation token is the service's own.
\<close>

section \<open>The builder\<close>

record ('c, 'w) statement_builder =
  tb_type :: gtype
  tb_db :: "('c, 'w) db"
  tb_stmt :: string
  tb_params :: "attr_val list"
  tb_err :: "go_err option"
  tb_limit :: "32 word option"
  tb_consistent :: "bool option"

text \<open>
  The loop over the parameters: the values marshaled before the first failure (the rest of the
  slice stays nil), and that failure.
\<close>

fun marshal_params :: "'w lib \<Rightarrow> heap \<Rightarrow> nat \<Rightarrow> go_any list \<Rightarrow> attr_val list \<times> go_err option" where
  "marshal_params L h i [] = ([], None)"
| "marshal_params L h i (p # ps) =
     (case lib_marshal L h p of
        Inl e \<Rightarrow> ([], Some (Wrapped (''godynamo: marshaling statement parameter '' @ nat_string i) e))
      | Inr av \<Rightarrow> (case marshal_params L h (Suc i) ps of (avs, err) \<Rightarrow> (av # avs, err)))"

definition Statement ::
    "'w lib \<Rightarrow> heap \<Rightarrow> gtype \<Rightarrow> ('c, 'w) db \<Rightarrow> string \<Rightarrow> go_any list \<Rightarrow> ('c, 'w) statement_builder" where
  "Statement L h t d stmt params =
     (case marshal_params L h 0 params of (avs, err) \<Rightarrow>
        \<lparr>tb_type = t, tb_db = d, tb_stmt = stmt, tb_params = avs, tb_err = err,
         tb_limit = None, tb_consistent = None\<rparr>)"

definition Statement_Limit :: "32 word \<Rightarrow> ('c, 'w) statement_builder \<Rightarrow> ('c, 'w) statement_builder" where
  "Statement_Limit n b = b\<lparr>tb_limit := Some n\<rparr>"

definition ConsistentRead :: "bool \<Rightarrow> ('c, 'w) statement_builder \<Rightarrow> ('c, 'w) statement_builder" where
  "ConsistentRead v b = b\<lparr>tb_consistent := Some v\<rparr>"

definition Statement_buildInput :: "('c, 'w) statement_builder \<Rightarrow> statement_input" where
  "Statement_buildInput b =
     \<lparr>ti_statement = tb_stmt b, ti_params = tb_params b, ti_limit = tb_limit b,
      ti_consistent = tb_consistent b, ti_next = None\<rparr>"

section \<open>The terminal methods\<close>

definition statement_call ::
    "('c, 'w) statement_builder \<Rightarrow> statement_input \<Rightarrow> ('w st, statement_page) act" where
  "statement_call b input s =
     map_fail (Wrapped (''godynamo: execute statement '' @ type_name (tb_type b)))
       (api (ExecuteStatement (db_client (tb_db b))) input s)"

partial_function (option) statement_loop ::
    "'w lib \<Rightarrow> ('c, 'w) statement_builder \<Rightarrow> statement_input \<Rightarrow> gval list \<Rightarrow> 'w st \<Rightarrow>
     (gval list outcome \<times> 'w st) option" where
  "statement_loop L b input items s =
     (case statement_call b input s of
        (Ok out, s1) \<Rightarrow>
          (case unmarshal_items L (tb_type b) (sp_items out) of
             Ok xs \<Rightarrow>
               (if sp_next out = None \<or> sp_next out = Some [] then Some (Ok (items @ xs), s1)
                else statement_loop L b (input\<lparr>ti_next := sp_next out\<rparr>) (items @ xs) s1)
           | Fail e \<Rightarrow> Some (Fail e, s1)
           | Panic m \<Rightarrow> Some (Panic m, s1))
      | (Fail e, s1) \<Rightarrow> Some (Fail e, s1)
      | (Panic m, s1) \<Rightarrow> Some (Panic m, s1))"

definition Statement_All ::
    "'w lib \<Rightarrow> ('c, 'w) statement_builder \<Rightarrow> 'w st \<Rightarrow> (gval list outcome \<times> 'w st) option" where
  "Statement_All L b s =
     (case tb_err b of
        Some e \<Rightarrow> Some (Fail e, s)
      | None \<Rightarrow> statement_loop L b (Statement_buildInput b) [] s)"

definition Statement_Page ::
    "'w lib \<Rightarrow> ('c, 'w) statement_builder \<Rightarrow> string \<Rightarrow> ('w st, gval list \<times> string) act" where
  "Statement_Page L b cursor s =
     (case tb_err b of
        Some e \<Rightarrow> (Fail e, s)
      | None \<Rightarrow>
          (let input = Statement_buildInput b;
               input = (if cursor \<noteq> [] then input\<lparr>ti_next := Some cursor\<rparr> else input) in
           continue (statement_call b input s) (\<lambda>out s.
             (map_ok (\<lambda>items. (items, case sp_next out of None \<Rightarrow> [] | Some c \<Rightarrow> c))
               (unmarshal_items L (tb_type b) (sp_items out)), s))))"

section \<open>Lemmas\<close>

definition statement_next :: "statement_input \<Rightarrow> statement_page \<Rightarrow> statement_input option" where
  "statement_next i p =
     (if sp_next p = None \<or> sp_next p = Some [] then None else Some (i\<lparr>ti_next := sp_next p\<rparr>))"

interpretation tp: paginator "statement_call b" statement_next sp_items "unmarshal_item L (tb_type b)"
    "statement_loop L b"
  for L :: "'w lib" and b :: "('c, 'w) statement_builder"
proof unfold_locales
  fix i acc s
  show "statement_loop L b i acc s = (case statement_call b i s of
         (Ok p, s1) \<Rightarrow>
           (case traverse (unmarshal_item L (tb_type b)) (sp_items p) of
              Ok xs \<Rightarrow> (case statement_next i p of
                   None \<Rightarrow> Some (Ok (acc @ xs), s1)
                 | Some j \<Rightarrow> statement_loop L b j (acc @ xs) s1)
            | Fail e \<Rightarrow> Some (Fail e, s1)
            | Panic m \<Rightarrow> Some (Panic m, s1))
       | (Fail e, s1) \<Rightarrow> Some (Fail e, s1)
       | (Panic m, s1) \<Rightarrow> Some (Panic m, s1))"
    by (subst statement_loop.simps)
      (auto simp: unmarshal_items_def statement_next_def split: prod.split outcome.split)
next
  fix i acc s r and P :: "statement_input \<Rightarrow> gval list \<Rightarrow> 'w st \<Rightarrow> gval list outcome \<times> 'w st \<Rightarrow> bool"
  assume loop: "statement_loop L b i acc s = Some r"
    and last: "\<And>i acc s p s1 xs. statement_call b i s = (Ok p, s1) \<Longrightarrow>
      traverse (unmarshal_item L (tb_type b)) (sp_items p) = Ok xs \<Longrightarrow> statement_next i p = None \<Longrightarrow>
      P i acc s (Ok (acc @ xs), s1)"
    and more: "\<And>i acc s p s1 xs j r. statement_call b i s = (Ok p, s1) \<Longrightarrow>
      traverse (unmarshal_item L (tb_type b)) (sp_items p) = Ok xs \<Longrightarrow> statement_next i p = Some j \<Longrightarrow>
      P j (acc @ xs) s1 r \<Longrightarrow> P i acc s r"
    and bad: "\<And>i acc s p s1 r. statement_call b i s = (Ok p, s1) \<Longrightarrow>
      traverse (unmarshal_item L (tb_type b)) (sp_items p) = r \<Longrightarrow> (\<And>xs. r \<noteq> Ok xs) \<Longrightarrow> P i acc s (r, s1)"
    and fail: "\<And>i acc s e s1. statement_call b i s = (Fail e, s1) \<Longrightarrow> P i acc s (Fail e, s1)"
    and panic: "\<And>i acc s m s1. statement_call b i s = (Panic m, s1) \<Longrightarrow> P i acc s (Panic m, s1)"
  show "P i acc s r"
  proof (rule statement_loop.raw_induct[OF _ loop, where
        P = "\<lambda>L' b' i acc s r. L' = L \<longrightarrow> b' = b \<longrightarrow> P i acc s r", THEN mp, OF _ refl, THEN mp, OF _ refl], goal_cases)
    case (1 rec L' b' i acc s r)
    from 1(2) show ?case
      by (auto simp: statement_next_def unmarshal_items_def
          intro: last bad fail panic more[OF _ _ _ 1(1)[rule_format]]
          split: prod.splits outcome.splits if_splits)
  qed
qed

lemma Statement_All_pages:
  assumes "tb_err b = None"
  shows "Statement_All L b s = Some (Ok xs, s') \<longleftrightarrow>
   (\<exists>ps. all_pages (statement_call b) statement_next (Statement_buildInput b) s ps s' \<and>
     unmarshal_items L (tb_type b) (concat (map sp_items ps)) = Ok xs)"
  using tp.loop_sound[of L b "Statement_buildInput b" "[]" s xs s']
    tp.loop_all[of b "Statement_buildInput b" s _ s' L xs "[]"]
  by (auto simp: Statement_All_def assms unmarshal_items_def)

text \<open>A client that asks for page after page.\<close>

inductive statement_walk ::
    "'w lib \<Rightarrow> ('c, 'w) statement_builder \<Rightarrow> string \<Rightarrow> 'w st \<Rightarrow> gval list \<Rightarrow> 'w st \<Rightarrow> bool"
  for L b where
  end_of_pages: "Statement_Page L b c s = (Ok (xs, []), s') \<Longrightarrow> statement_walk L b c s xs s'"
| another_page: "Statement_Page L b c s = (Ok (xs, c'), s1) \<Longrightarrow> c' \<noteq> [] \<Longrightarrow> statement_walk L b c' s1 ys s' \<Longrightarrow>
    statement_walk L b c s (xs @ ys) s'"

definition from_token :: "('c, 'w) statement_builder \<Rightarrow> string \<Rightarrow> statement_input" where
  "from_token b c = (Statement_buildInput b)\<lparr>ti_next := if c = [] then None else Some c\<rparr>"

lemma Statement_Page_Ok:
  "Statement_Page L b c s = (Ok (xs, c'), s') \<longleftrightarrow>
   tb_err b = None \<and> (\<exists>out. statement_call b (from_token b c) s = (Ok out, s') \<and>
     unmarshal_items L (tb_type b) (sp_items out) = Ok xs \<and>
     c' = (case sp_next out of None \<Rightarrow> [] | Some c \<Rightarrow> c))"
  by (auto simp: Statement_Page_def continue_Ok from_token_def Statement_buildInput_def Let_def
      split: option.splits if_splits)

lemma statement_walk_chain:
  "statement_walk L b c s xs s' \<Longrightarrow>
   tb_err b = None \<and> (\<exists>ps. all_pages (statement_call b) statement_next (from_token b c) s ps s' \<and>
    unmarshal_items L (tb_type b) (concat (map sp_items ps)) = Ok xs)"
proof (induction rule: statement_walk.induct)
  case (end_of_pages c s xs s')
  then obtain out where out: "tb_err b = None" "statement_call b (from_token b c) s = (Ok out, s')"
      "unmarshal_items L (tb_type b) (sp_items out) = Ok xs" "[] = (case sp_next out of None \<Rightarrow> [] | Some c \<Rightarrow> c)"
    unfolding Statement_Page_Ok by blast
  then have "statement_next (from_token b c) out = None"
    by (auto simp: statement_next_def split: option.splits)
  with out show ?case by (auto intro!: exI[of _ "[out]"] all_pages.last)
next
  case (another_page c s xs c' s1 ys s')
  then obtain out where out: "tb_err b = None" "statement_call b (from_token b c) s = (Ok out, s1)"
      "unmarshal_items L (tb_type b) (sp_items out) = Ok xs" "sp_next out = Some c'"
    unfolding Statement_Page_Ok by (auto split: option.splits)
  have "statement_next (from_token b c) out = Some (from_token b c')"
    using out(4) another_page.hyps(2) by (simp add: statement_next_def from_token_def)
  moreover obtain ps where "all_pages (statement_call b) statement_next (from_token b c') s1 ps s'"
      and "unmarshal_items L (tb_type b) (concat (map sp_items ps)) = Ok ys"
    using another_page.IH by blast
  ultimately show ?case
    using out by (auto intro!: exI[of _ "out # ps"] all_pages.more simp: unmarshal_items_def traverse_append)
qed

lemma marshal_params_error:
  assumes "list_all2 (\<lambda>p av. lib_marshal L h p = Inr av) ps avs" and "lib_marshal L h p = Inl e"
  shows "marshal_params L h i (ps @ p # rest) =
    (avs, Some (Wrapped (''godynamo: marshaling statement parameter '' @ nat_string (i + length ps)) e))"
  using assms(1) by (induction ps avs arbitrary: i rule: list_all2_induct) (simp_all add: assms(2))

section \<open>Properties\<close>

text \<open>
  The statement's \<open>All\<close> returns the items of all pages up to the first empty token, in
  order, and paging by hand with the service's tokens sees the same items.
\<close>

theorem statement_paging_agrees_with_all:
  assumes "statement_walk L b [] s xs s'"
  shows "Statement_All L b s = Some (Ok xs, s') \<and>
    (\<exists>ps. all_pages (statement_call b) statement_next (Statement_buildInput b) s ps s' \<and>
      list_all2 (\<lambda>av x. unmarshal_item L (tb_type b) av = Ok x) (concat (map sp_items ps)) xs)"
proof -
  have "from_token b [] = Statement_buildInput b" by (simp add: from_token_def Statement_buildInput_def)
  with statement_walk_chain[OF assms] show ?thesis
    using Statement_All_pages[of b L s xs s'] by (auto simp: unmarshal_items_def traverse_Ok)
qed

theorem statement_paging_agrees_with_all_witness:
  "\<exists>s'. Statement_All sample_lib (Statement sample_lib (\<lambda>_. VStr []) order_type sample_db ''SELECT'' [])
      \<lparr>mem = (\<lambda>_. VStr []), world = two_pages\<rparr> =
    Some (Ok [row_value ''open'', row_value ''paid'', row_value ''sent''], s')"
proof -
  let ?b = "Statement sample_lib (\<lambda>_. VStr []) order_type sample_db ''SELECT'' []"
  let ?s = "\<lparr>mem = (\<lambda>_. VStr []), world = two_pages\<rparr>"
  have "statement_walk sample_lib ?b [] ?s [row_value ''open'', row_value ''paid'', row_value ''sent''] ?s"
    by (rule statement_walk.end_of_pages)
      (simp add: Statement_Page_def Statement_def statement_call_def api_def sample_client_def
        two_pages_def unmarshal_items_def)
  from statement_paging_agrees_with_all[OF this] show ?thesis by blast
qed

text \<open>
  A parameter that does not marshal makes both terminal methods return its error, which names
  the position of the first such parameter, without a call and whatever was set on the builder after.
\<close>

theorem bad_parameter_is_reported:
  assumes "list_all2 (\<lambda>p av. lib_marshal L h p = Inr av) ps avs" and "lib_marshal L h p = Inl e"
    and "b = ConsistentRead v (Statement_Limit n (Statement L h t d stmt (ps @ p # rest)))"
    and "err = Wrapped (''godynamo: marshaling statement parameter '' @ nat_string (length ps)) e"
  shows "Statement_All L b s = Some (Fail err, s) \<and> Statement_Page L b c s = (Fail err, s)"
  using marshal_params_error[OF assms(1,2), of 0 rest] assms(3,4)
  by (simp add: Statement_All_def Statement_Page_def ConsistentRead_def Statement_Limit_def Statement_def)

theorem bad_parameter_is_reported_witness:
  "\<forall>s. Statement_All
      (sample_lib\<lparr>lib_marshal := (\<lambda>h x. case x of None \<Rightarrow> Inl (OtherErr ''unsupported'') | Some tv \<Rightarrow> Inr (AVBOOL True))\<rparr>)
      (ConsistentRead True (Statement_Limit 5
        (Statement (sample_lib\<lparr>lib_marshal := (\<lambda>h x. case x of None \<Rightarrow> Inl (OtherErr ''unsupported'') | Some tv \<Rightarrow> Inr (AVBOOL True))\<rparr>)
          (\<lambda>_. VStr []) order_type sample_db ''S'' [Some (TBool, VBool True), None]))) s =
    Some (Fail (Wrapped ''godynamo: marshaling statement parameter 1'' (OtherErr ''unsupported'')), s)"
proof
  fix s
  let ?L = "sample_lib\<lparr>lib_marshal := (\<lambda>h x. case x of None \<Rightarrow> Inl (OtherErr ''unsupported'') | Some tv \<Rightarrow> Inr (AVBOOL True))\<rparr>"
  have 1: "list_all2 (\<lambda>p av. lib_marshal ?L (\<lambda>_. VStr []) p = Inr av) [Some (TBool, VBool True)] [AVBOOL True]"
    and 2: "lib_marshal ?L (\<lambda>_. VStr []) None = Inl (OtherErr ''unsupported'')"
    by simp_all
  show "Statement_All ?L (ConsistentRead True (Statement_Limit 5
        (Statement ?L (\<lambda>_. VStr []) order_type sample_db ''S'' [Some (TBool, VBool True), None]))) s =
    Some (Fail (Wrapped ''godynamo: marshaling statement parameter 1'' (OtherErr ''unsupported'')), s)"
    using bad_parameter_is_reported[OF 1 2 refl refl, of True 5 order_type sample_db "''S''" "[]" s]
    by (simp add: nat_string.simps)
qed

end
