(* ===== verification/Spec2Isabelle.thy ===== *)
theory Spec2Isabelle
  imports Table_Ops Table_Writes Table_Query Table_Batch Table_Transact Scan_Progress Query Scan Statement Batch Transact
begin

text \<open>
  godynamo, a Go library for single-table DynamoDB designs: a verification development.

  The program. An entity is a Go struct that embeds \<open>Model\<close> (\<open>model.go\<close>) and may carry struct tags
  (\<open>tags.go\<close>) that say from which fields its partition and sort key are built (\<open>keys.go\<close>) and which
  fields are stored compressed (\<open>compress.go\<close>). A \<open>DB\<close> (\<open>client.go\<close>, \<open>options.go\<close>) holds the AWS client,
  the table's names, a clock and an actor. On it work the single-item operations with audit
  fields, versions and optimistic locking (\<open>crud.go\<close>), and the builders of queries (\<open>query.go\<close>), scans
  (\<open>scan.go\<close>), PartiQL statements (\<open>statement.go\<close>), batches (\<open>batch.go\<close>) and transactions
  (\<open>transact.go\<close>). Every write goes through \<open>stampAndMarshal\<close>, which stamps the entity in memory,
  marshals it and adds the keys; every read ends in \<open>unmarshalItemInto\<close>.

  The theories, and the code they model:
  \<^item> \<open>Go_Prelude\<close>: strings, splitting, trimming, decimal numbers (Go's \<open>strings\<close>, \<open>strconv\<close>).
  \<^item> \<open>Go_Errors\<close>: error values with \<open>errors.Is\<close> and \<open>errors.As\<close>; outcomes (value, error, panic) and their
    sequencing; the locale \<open>codec\<close> of encoders with a left inverse.
  \<^item> \<open>Go_Reflect\<close>: types and values as the \<open>reflect\<close> package sees them, \<open>FieldByName\<close> with promotion through
    embedded structs, typing, and lookups and updates along field paths.
  \<^item> \<open>Entity_Model\<close> (\<open>model.go\<close>), \<open>Tags\<close> (\<open>tags.go\<close>), \<open>Keys\<close> (\<open>keys.go\<close>), \<open>Client_DB\<close> (\<open>client.go\<close>,
    \<open>options.go\<close>), \<open>Compress\<close> (\<open>compress.go\<close>), \<open>Crud\<close> (\<open>crud.go\<close>).
  \<^item> \<open>Aws_Interface\<close>: attribute values, expressions as syntax trees, requests and replies, the record
    \<open>lib\<close> of library functions and the record \<open>client\<close> of AWS calls, both parameters of the model.
  \<^item> \<open>Paging\<close> (the loop that \<open>Query\<close>, \<open>Scan\<close> and \<open>Statement\<close> share, as the locale \<open>paginator\<close>), \<open>Filters\<close>
    (the filters of queries and scans, locale \<open>filter_builder\<close>), \<open>Cursor\<close> (base64url cursors), \<open>Query\<close>
    (\<open>query.go\<close>), \<open>Scan\<close> (\<open>scan.go\<close>), \<open>Statement\<close> (\<open>statement.go\<close>).
  \<^item> \<open>Chunks\<close> (locales \<open>chunked\<close>, \<open>retrying\<close> and \<open>error_latch\<close>), \<open>Batch\<close> (\<open>batch.go\<close>), \<open>Transact\<close>
    (\<open>transact.go\<close>).
  \<^item> \<open>Scan_Progress\<close>: why a parallel scan ends.
  \<^item> \<open>Table\<close>, \<open>Table_Ops\<close>, \<open>Table_Batch\<close>, \<open>Table_Transact\<close>: the operations of \<open>crud.go\<close>, the batches
    and the transactions on a table that behaves as DynamoDB documents it (a map from primary keys to
    items, seen through a view of the outside world; the plain reads are eventually consistent, so what they
    may show is a set of versions per key). \<open>Table_Writes\<close>: what batches and transactions share, as the locales
    \<open>keyed_writes\<close> (writes of different keys commute) and \<open>object_steps\<close> (a loop that stamps one entity after
    the other). \<open>Table_Query\<close>: which queries the written items match.
  \<^item> \<open>Sample_Lib\<close>, \<open>Sample_DB\<close>: concrete libraries, a client with an in-memory table and entities, on which
    the witnesses evaluate the theorems.

  How state and effects are modelled. The state \<open>'w st\<close> is the Go heap of the caller's entities
  (addresses to values) and the outside world \<open>'w\<close>, which only the client, the clock, the ID
  generator and the pauses change. An operation is a function from the state to an outcome and the
  next state, whether it returns, fails or panics, so an entity stamped before a failing call stays
  stamped in the model as in the code. A builder is a record; its chained methods return the
  updated record. The code's pointers to entities are addresses, so in-place stamping and two pointers
  to one entity behave as in Go. Integers keep their widths: versions and segment counts are 64-bit
  words, limits and segment numbers 32-bit words, IDs 128-bit words. The goroutines of a parallel scan
  are threads that take turns; a turn is one call of the service or one section under the lock,
  and a schedule, any list of thread numbers, says who moves.

  What the lemmas show. \<open>Tags\<close>: the parser reads the documented grammar, and its cache is
  transparent. \<open>Keys\<close>: keys are total on well-formed entities and keep entities apart. \<open>Compress\<close>,
  \<open>Cursor\<close>: round trips. \<open>Crud\<close>: what stamping changes and keeps, what is sent, and which types are
  refused. \<open>Table\<close>, \<open>Table_Ops\<close>: optimistic locking, version counting, and what a read after a write
  returns, on the documented table. \<open>Table_Batch\<close>: a batched get reads every queued ID once and a batched write
  applies every operation, however the service portions them. \<open>Table_Transact\<close>: transactions are all or
  nothing, stale entities and failed checks abort them, and reads are snapshots. \<open>Paging\<close> and its clients:
  \<open>All\<close> is the concatenation of the pages, it ends when the pages do, and paging by hand agrees with it.
  \<open>Scan\<close>: under every schedule a parallel scan that succeeds has read each segment page by page to its end
  and returns all items, each once. \<open>Scan_Progress\<close>: on a snapshot, when the scan of each segment returns,
  every schedule ends. \<open>Batch\<close>, \<open>Transact\<close>: chunking, retries, limits and error translation.

  Bounds and fuel. The loops that follow the service's page keys may run forever; they are partial
  functions into options, \<open>None\<close> meaning that they do not return, and termination on a finite chain of
  pages is proved. The retry loops make at most six calls per chunk, the chunk sizes are 100 and 25
  and a transaction has at most 100 entries; these loops are total functions. A parallel scan runs a
  finite schedule; it has no result while a goroutine is unfinished.

  Parameters. The AWS SDK (client calls, \<open>attributevalue\<close>, \<open>expression\<close>), the UUID package, gzip, JSON
  and the text of values other than strings, integers, booleans, times and IDs are arguments. What a
  theorem needs of them is a named law (\<open>gzip_law\<close>, \<open>json_law\<close>, \<open>unmarshal_law\<close>, \<open>table_law\<close>,
  \<open>read_law\<close>, \<open>update_law\<close>, \<open>batch_get_law\<close>, \<open>batch_write_law\<close>, \<open>transact_law\<close>, \<open>one_per_item\<close>,
  \<open>transact_get_law\<close>, \<open>condition_law\<close>, \<open>version_law\<close>, \<open>cursor_law\<close>, \<open>quiet\<close>, \<open>quiet_sleep\<close>, \<open>settling\<close>) that
  states documented behaviour; the sample library and the sample clients satisfy all of them. \<open>json_law\<close> is
  about the compressed values of the entity at hand, since JSON does not restore every string, and
  \<open>read_law\<close> and \<open>batch_get_law\<close> are those of eventually consistent reads, since the code asks for no others.

  Not modelled. The rendering of expressions into text with placeholders (conditions stay syntax
  trees, which is what decides them); the offset in base64 error messages; embedded pointers to
  structs, which \<open>FieldByName\<close> would follow; field names with a non-ASCII first letter in the export
  rule; the sharing of backing arrays between copies of a builder's slices; cancellation of contexts,
  which reaches the library only as an error of a call; preemption inside a goroutine's turn (it
  touches no shared variable there). The tests, the examples, the tool module and the build files
  hold no code of the library.
\<close>

end
